theory Spec2Isabelle
  imports Complex_Main
begin

section \<open>Conventions of the embedding\<close>

text \<open>
  The development embeds the mesh generator of \<^verbatim>\<open>cf3/mesh/BlockMesh/BlockData.cpp\<close>.

  \<^item> \<^verbatim>\<open>Uint\<close> is \<^verbatim>\<open>unsigned int\<close>, 32 bits wide. A \<^verbatim>\<open>Uint\<close> value is a natural number
    below \<open>2 ^ 32\<close>; the tables and arguments of type \<^verbatim>\<open>Uint\<close> hold such numbers. The
    result of an arithmetic expression is reduced modulo \<open>2 ^ 32\<close> (\<open>uint\<close>); a
    difference \<^verbatim>\<open>a - b\<close> is \<open>uint_minus a b\<close>. Reduction commutes with sums and
    products (\<open>uint_add\<close>, \<open>uint_mult\<close> below), so that an expression built from \<^verbatim>\<open>+\<close>
    and \<^verbatim>\<open>*\<close> is reduced once, where its value is stored or returned.
  \<^item> A \<^verbatim>\<open>std::vector\<close> is a list; reading it outside its range is undefined in C++
    and is the error \<open>OutOfRange\<close> of the model.
  \<^item> \<^verbatim>\<open>cf3_assert\<close> raises a failed assertion (this is what
    \<^verbatim>\<open>AssertionManager::do_assert\<close> does with its default settings); a \<^verbatim>\<open>throw\<close>
    is the error named after the exception.
  \<^item> A \<^verbatim>\<open>std::map\<close> is a partial function.
\<close>

datatype error =
    FailedAssertion
  | ShouldNotBeHere
  | SetupError
  | BadValue
  | OutOfRange
  | NullPointer
  | NoAdjacentElement

type_synonym 'a result = "error + 'a"

definition bindE :: "'a result \<Rightarrow> ('a \<Rightarrow> 'b result) \<Rightarrow> 'b result" where
  "bindE m f = (case m of Inl e \<Rightarrow> Inl e | Inr x \<Rightarrow> f x)"

definition cf3_assert :: "bool \<Rightarrow> 'a result \<Rightarrow> 'a result" where
  "cf3_assert c k = (if c then k else Inl FailedAssertion)"

definition vec_at :: "'a list \<Rightarrow> nat \<Rightarrow> 'a result" where
  "vec_at xs i = (if i < length xs then Inr (xs ! i) else Inl OutOfRange)"

text \<open>The arithmetic of \<^verbatim>\<open>Uint\<close>.\<close>

definition uint :: "nat \<Rightarrow> nat" where
  "uint n = n mod 2 ^ 32"

definition uint_minus :: "nat \<Rightarrow> nat \<Rightarrow> nat" where
  "uint_minus a b = uint (a + (2 ^ 32 - b mod 2 ^ 32))"

section \<open>Local node indices and ghost nodes\<close>

text \<open>
  The members that \<^verbatim>\<open>to_local\<close> reads and writes. \<^verbatim>\<open>BlockArrays::Implementation\<close>,
  \<^verbatim>\<open>NodeIndices3D\<close> and \<^verbatim>\<open>NodeIndices2D\<close> each hold these four members (the latter
  two name the bounds \<^verbatim>\<open>m_local_nodes_begin\<close> and \<^verbatim>\<open>m_local_nodes_end\<close>) and are
  extensions of this record.
\<close>

record LocalIndex =
  local_nodes_begin :: nat
  local_nodes_end :: nat
  ghost_counter :: nat
  global_to_local :: "nat \<rightharpoonup> nat"

text \<open>
  \<^verbatim>\<open>Uint to_local(const Uint gid)\<close>: \<^verbatim>\<open>std::map::insert\<close> leaves the map unchanged and
  returns the stored entry when the key is present.
\<close>

definition to_local :: "nat \<Rightarrow> 'a LocalIndex_scheme \<Rightarrow> nat \<times> 'a LocalIndex_scheme" where
  "to_local gid s =
     (if gid \<ge> local_nodes_begin s \<and> gid < local_nodes_end s
      then (gid - local_nodes_begin s, s)
      else
        let lid = uint (uint_minus (local_nodes_end s) (local_nodes_begin s) + ghost_counter s) in
        (case global_to_local s gid of
           Some stored \<Rightarrow> (stored, s)
         | None \<Rightarrow>
             (lid, s\<lparr>global_to_local := (global_to_local s)(gid \<mapsto> lid),
                     ghost_counter := uint (ghost_counter s + 1)\<rparr>)))"

section \<open>Block data and face connectivity\<close>

text \<open>
  \<^verbatim>\<open>BlockData\<close> (declared in \<^verbatim>\<open>BlockData.hpp\<close>): the members the functions below use.
  A stored \<^verbatim>\<open>Real\<close> is the real number it denotes.
\<close>

record BlockData =
  dimension :: nat
  points :: "real list list"
  block_points :: "nat list list"
  block_subdivisions :: "nat list list"
  block_gradings :: "real list list"
  block_distribution :: "nat list"
  patch_names :: "string list"
  patch_points :: "nat list list"

text \<open>
  \<^verbatim>\<open>CFaceConnectivity\<close> is not part of the sources and is a parameter of the model: for
  an element and one of its faces it gives the adjacent element, if there is one
  (\<^verbatim>\<open>has_adjacent_element\<close>). An \<^verbatim>\<open>ElementReferenceT\<close> is a pair of an \<^verbatim>\<open>Elements\<close>
  component and an index in it; of the component the code reads the dimensionality of
  its element type and the name of its parent region. Asking for the adjacent element
  of a face that has none is outside the contract of the connectivity and is the error
  \<open>NoAdjacentElement\<close>.
\<close>

record ElementReference =
  dimensionality :: nat
  parent_name :: string
  element_idx :: nat

type_synonym CFaceConnectivity = "nat \<Rightarrow> nat \<Rightarrow> ElementReference option"

definition has_adjacent_element :: "CFaceConnectivity \<Rightarrow> nat \<Rightarrow> nat \<Rightarrow> bool" where
  "has_adjacent_element fc element face = (fc element face \<noteq> None)"

definition adjacent_element :: "CFaceConnectivity \<Rightarrow> nat \<Rightarrow> nat \<Rightarrow> ElementReference result" where
  "adjacent_element fc element face =
     (case fc element face of None \<Rightarrow> Inl NoAdjacentElement | Some r \<Rightarrow> Inr r)"

text \<open>Coordinate axes (\<^verbatim>\<open>CoordXYZ\<close>) and dimensions.\<close>

definition XX :: nat where "XX = 0"
definition YY :: nat where "YY = 1"
definition ZZ :: nat where "ZZ = 2"

definition DIM_1D :: nat where "DIM_1D = 1"
definition DIM_2D :: nat where "DIM_2D = 2"
definition DIM_3D :: nat where "DIM_3D = 3"

text \<open>
  Modelled from the spec: the face numbering of \<^verbatim>\<open>LagrangeP1::Hexa\<close> (\<^verbatim>\<open>Hexa.hpp\<close> is not
  part of the sources), in the canonical face order of the specification,
  \<open>[-\<zeta>, -\<eta>, +\<xi>, +\<eta>, -\<xi>, +\<zeta>]\<close>. The quadrilateral's faces are numbered in
  the source itself (\<open>XNEG = 3\<close>, \<open>XPOS = 1\<close>, \<open>YNEG = 0\<close>, \<open>YPOS = 2\<close>).
\<close>

definition ZTA_NEG :: nat where "ZTA_NEG = 0"
definition ETA_NEG :: nat where "ETA_NEG = 1"
definition KSI_POS :: nat where "KSI_POS = 2"
definition ETA_POS :: nat where "ETA_POS = 3"
definition KSI_NEG :: nat where "KSI_NEG = 4"
definition ZTA_POS :: nat where "ZTA_POS = 5"

definition XNEG :: nat where "XNEG = 3"
definition XPOS :: nat where "XPOS = 1"
definition YNEG :: nat where "YNEG = 0"
definition YPOS :: nat where "YPOS = 2"

text \<open>A \<^verbatim>\<open>for\<close> loop over a list in the error monad.\<close>

fun foldE :: "('a \<Rightarrow> 's \<Rightarrow> 's result) \<Rightarrow> 'a list \<Rightarrow> 's \<Rightarrow> 's result" where
  "foldE f [] s = Inr s"
| "foldE f (x # xs) s = bindE (f x s) (foldE f xs)"

definition vec_back :: "'a list \<Rightarrow> 'a result" where
  "vec_back xs = (if xs = [] then Inl OutOfRange else Inr (last xs))"

section \<open>The global index oracle: \<^verbatim>\<open>NodeIndices3D\<close> and \<^verbatim>\<open>NodeIndices2D\<close>\<close>

text \<open>
  The two structs have the same members. \<open>bounded\<close> is the table
  \<^verbatim>\<open>Bools2T bounded\<close>, one row per block.
\<close>

record NodeIndices = LocalIndex +
  block_first_nodes :: "nat list"
  nodes_dist :: "nat list"
  bounded :: "bool list list"
  m_face_connectivity :: CFaceConnectivity
  m_block_data :: BlockData
  m_rank :: nat
  m_nb_procs :: nat

text \<open>\<^verbatim>\<open>enum Bounds { XY = 3, XZ = 4, YZ = 5, XYZ = 6 }\<close> and, in 2D, \<^verbatim>\<open>{ XY = 2 }\<close>.\<close>

definition XY :: nat where "XY = 3"
definition XZ :: nat where "XZ = 4"
definition YZ :: nat where "YZ = 5"
definition XYZ :: nat where "XYZ = 6"
definition XY_2D :: nat where "XY_2D = 2"

text \<open>The nodes distribution, common to both constructors.\<close>

definition nodes_dist_step :: "nat list \<Rightarrow> nat list \<Rightarrow> nat \<Rightarrow> nat list \<Rightarrow> nat list result" where
  "nodes_dist_step first_nodes distribution proc acc =
     bindE (vec_back acc) (\<lambda>back.
     bindE (vec_at distribution (proc + 1)) (\<lambda>block_end.
     bindE (vec_at first_nodes block_end) (\<lambda>first_end.
     bindE (vec_at distribution proc) (\<lambda>block_begin.
     bindE (vec_at first_nodes block_begin) (\<lambda>first_begin.
       Inr (acc @ [uint_minus (uint (back + first_end)) first_begin]))))))"

definition nodes_dist_loop :: "nat list \<Rightarrow> nat list \<Rightarrow> nat \<Rightarrow> nat list result" where
  "nodes_dist_loop first_nodes distribution nb_procs =
     foldE (nodes_dist_step first_nodes distribution) [0..<nb_procs] [0]"

text \<open>The constructor of \<^verbatim>\<open>NodeIndices3D\<close>.\<close>

definition bounded_row_3d :: "CFaceConnectivity \<Rightarrow> nat \<Rightarrow> bool list result" where
  "bounded_row_3d fc block =
     bindE (adjacent_element fc block KSI_POS) (\<lambda>x_adj.
     bindE (adjacent_element fc block ETA_POS) (\<lambda>y_adj.
     bindE (adjacent_element fc block ZTA_POS) (\<lambda>z_adj.
       let bx = (dimensionality x_adj = DIM_2D);
           by = (dimensionality y_adj = DIM_2D);
           bz = (dimensionality z_adj = DIM_2D)
       in Inr [bx, by, bz, bx \<and> by, bx \<and> bz, by \<and> bz, bx \<and> by \<and> bz])))"

definition nb_nodes_3d :: "nat list \<Rightarrow> bool list \<Rightarrow> nat result" where
  "nb_nodes_3d segments row =
     bindE (vec_at segments XX) (\<lambda>x_segs.
     bindE (vec_at segments YY) (\<lambda>y_segs.
     bindE (vec_at segments ZZ) (\<lambda>z_segs.
     bindE (vec_at row XX) (\<lambda>bx. bindE (vec_at row YY) (\<lambda>by. bindE (vec_at row ZZ) (\<lambda>bz.
     bindE (vec_at row XY) (\<lambda>bxy. bindE (vec_at row XZ) (\<lambda>bxz. bindE (vec_at row YZ) (\<lambda>byz.
     bindE (vec_at row XYZ) (\<lambda>bxyz.
       Inr (uint (x_segs * y_segs * z_segs +
                  of_bool bx * y_segs * z_segs +
                  of_bool by * x_segs * z_segs +
                  of_bool bz * x_segs * y_segs +
                  of_bool bxy * z_segs +
                  of_bool bxz * y_segs +
                  of_bool byz * x_segs +
                  of_bool bxyz))))))))))))"

definition first_nodes_step_3d ::
  "CFaceConnectivity \<Rightarrow> BlockData \<Rightarrow> nat \<Rightarrow> bool list list \<times> nat list \<Rightarrow>
     (bool list list \<times> nat list) result" where
  "first_nodes_step_3d face_connectivity block_data block acc =
     (case acc of (bnd, first_nodes) \<Rightarrow>
        bindE (vec_at (block_subdivisions block_data) block) (\<lambda>segments.
        bindE (bounded_row_3d face_connectivity block) (\<lambda>row.
        bindE (nb_nodes_3d segments row) (\<lambda>nb_nodes.
        bindE (vec_back first_nodes) (\<lambda>back.
          Inr (bnd @ [row], first_nodes @ [uint (back + nb_nodes)]))))))"

definition NodeIndices3D :: "CFaceConnectivity \<Rightarrow> BlockData \<Rightarrow> nat \<Rightarrow> nat \<Rightarrow> NodeIndices result" where
  "NodeIndices3D face_connectivity block_data rank nb_procs =
     (let nb_blocks = length (block_subdivisions block_data) in
      bindE (foldE (first_nodes_step_3d face_connectivity block_data) [0..<nb_blocks] ([], [0]))
        (\<lambda>(bnd, first_nodes).
      bindE (nodes_dist_loop first_nodes (block_distribution block_data) nb_procs) (\<lambda>dist.
      bindE (vec_at dist rank) (\<lambda>nodes_begin.
      bindE (vec_at dist (uint (rank + 1))) (\<lambda>nodes_end.
        Inr \<lparr>local_nodes_begin = nodes_begin, local_nodes_end = nodes_end,
             ghost_counter = 0, global_to_local = Map.empty,
             block_first_nodes = first_nodes, nodes_dist = dist, bounded = bnd,
             m_face_connectivity = face_connectivity, m_block_data = block_data,
             m_rank = rank, m_nb_procs = nb_procs\<rparr>)))))"

text \<open>
  \<^verbatim>\<open>global_idx\<close> calls itself on a neighbouring block. The recursion is bounded by
  fuel: \<open>None\<close> is the call that does not return within the fuel.

  \<open>liftR\<close> continues with the value of a read, \<open>bindR\<close> with the value of a recursive
  call; \<open>checked_return\<close> is the pair
  \<^verbatim>\<open>cf3_assert(retval < block_first_nodes.back()); return retval;\<close>.
\<close>

definition liftR :: "'a result \<Rightarrow> ('a \<Rightarrow> 'b result option) \<Rightarrow> 'b result option" where
  "liftR m f = (case m of Inl e \<Rightarrow> Some (Inl e) | Inr x \<Rightarrow> f x)"

definition bindR :: "'a result option \<Rightarrow> ('a \<Rightarrow> 'b result option) \<Rightarrow> 'b result option" where
  "bindR m f = (case m of None \<Rightarrow> None | Some (Inl e) \<Rightarrow> Some (Inl e) | Some (Inr x) \<Rightarrow> f x)"

definition checked_return :: "'a NodeIndices_scheme \<Rightarrow> nat \<Rightarrow> nat result" where
  "checked_return nd retval =
     bindE (vec_back (block_first_nodes nd)) (\<lambda>back. cf3_assert (retval < back) (Inr retval))"

definition bounded_at :: "'a NodeIndices_scheme \<Rightarrow> nat \<Rightarrow> nat \<Rightarrow> bool result" where
  "bounded_at nd block d = bindE (vec_at (bounded nd) block) (\<lambda>row. vec_at row d)"

definition adjacent_block :: "'a NodeIndices_scheme \<Rightarrow> nat \<Rightarrow> nat \<Rightarrow> nat result" where
  "adjacent_block nd block face =
     bindE (adjacent_element (m_face_connectivity nd) block face) (\<lambda>r. Inr (element_idx r))"

text \<open>
  One call of \<^verbatim>\<open>NodeIndices3D::global_idx\<close>; \<open>self\<close> stands for the recursive calls.
\<close>

definition global_idx_3d_body ::
  "(nat \<Rightarrow> nat \<Rightarrow> nat \<Rightarrow> nat \<Rightarrow> nat result option) \<Rightarrow> 'a NodeIndices_scheme \<Rightarrow>
     nat \<Rightarrow> nat \<Rightarrow> nat \<Rightarrow> nat \<Rightarrow> nat result option" where
  "global_idx_3d_body self nd block i j k =
    (let subdivisions = block_subdivisions (m_block_data nd) in
     if \<not> block < length subdivisions then Some (Inl FailedAssertion) else
     let segments = subdivisions ! block in
     liftR (vec_at segments XX) (\<lambda>x_segs.
     liftR (vec_at segments YY) (\<lambda>y_segs.
     liftR (vec_at segments ZZ) (\<lambda>z_segs.
     let nb_internal_nodes = x_segs * y_segs * z_segs in
     if \<not> i \<le> x_segs then Some (Inl FailedAssertion) else
     if \<not> j \<le> y_segs then Some (Inl FailedAssertion) else
     if \<not> k \<le> z_segs then Some (Inl FailedAssertion) else
     if i \<noteq> x_segs \<and> j \<noteq> y_segs \<and> k \<noteq> z_segs then
       Some (bindE (vec_at (block_first_nodes nd) block) (\<lambda>first.
             checked_return nd (uint (first + i + j * x_segs + k * x_segs * y_segs))))
     else if i = x_segs \<and> j \<noteq> y_segs \<and> k \<noteq> z_segs then
       liftR (bounded_at nd block XX) (\<lambda>bx.
       if \<not> bx then
         Some (bindE (adjacent_block nd block KSI_POS) (\<lambda>adj_block.
               bindE (vec_at subdivisions adj_block) (\<lambda>adj_segs.
               bindE (vec_at (block_first_nodes nd) adj_block) (\<lambda>first.
               bindE (vec_at adj_segs XX) (\<lambda>adj_x.
               bindE (vec_at adj_segs YY) (\<lambda>adj_y.
               checked_return nd (uint (first + j * adj_x + k * adj_x * adj_y))))))))
       else
         Some (bindE (vec_at (block_first_nodes nd) block) (\<lambda>first.
               checked_return nd (uint (first + nb_internal_nodes + j + k * y_segs)))))
     else if i \<noteq> x_segs \<and> j = y_segs \<and> k \<noteq> z_segs then
       liftR (bounded_at nd block YY) (\<lambda>by.
       if \<not> by then
         Some (bindE (adjacent_block nd block ETA_POS) (\<lambda>adj_block.
               bindE (vec_at subdivisions adj_block) (\<lambda>adj_segs.
               bindE (vec_at (block_first_nodes nd) adj_block) (\<lambda>first.
               bindE (vec_at adj_segs XX) (\<lambda>adj_x.
               bindE (vec_at adj_segs YY) (\<lambda>adj_y.
               checked_return nd (uint (first + i + k * adj_x * adj_y))))))))
       else
         Some (bindE (vec_at (block_first_nodes nd) block) (\<lambda>first.
               bindE (bounded_at nd block XX) (\<lambda>bx.
               checked_return nd
                 (uint (first + nb_internal_nodes + of_bool bx * y_segs * z_segs + i + k * x_segs))))))
     else if i \<noteq> x_segs \<and> j \<noteq> y_segs \<and> k = z_segs then
       liftR (bounded_at nd block ZZ) (\<lambda>bz.
       if \<not> bz then
         Some (bindE (adjacent_block nd block ZTA_POS) (\<lambda>adj_block.
               bindE (vec_at subdivisions adj_block) (\<lambda>adj_segs.
               bindE (vec_at (block_first_nodes nd) adj_block) (\<lambda>first.
               bindE (vec_at adj_segs XX) (\<lambda>adj_x.
               checked_return nd (uint (first + i + j * adj_x)))))))
       else
         Some (bindE (vec_at (block_first_nodes nd) block) (\<lambda>first.
               bindE (bounded_at nd block XX) (\<lambda>bx.
               bindE (bounded_at nd block YY) (\<lambda>by.
               checked_return nd
                 (uint (first + nb_internal_nodes + of_bool bx * y_segs * z_segs
                    + of_bool by * x_segs * z_segs + i + j * x_segs)))))))
     else if i = x_segs \<and> j = y_segs \<and> k \<noteq> z_segs then
       liftR (bounded_at nd block XY) (\<lambda>bxy.
       if \<not> bxy then
         liftR (bounded_at nd block XX) (\<lambda>bx.
         if \<not> bx then
           liftR (adjacent_block nd block KSI_POS) (\<lambda>x_adj.
           bindR (self x_adj 0 j k) (\<lambda>retval. Some (checked_return nd retval)))
         else
           liftR (adjacent_block nd block ETA_POS) (\<lambda>y_adj.
           bindR (self y_adj i 0 k) (\<lambda>retval. Some (checked_return nd retval))))
       else
         Some (bindE (vec_at (block_first_nodes nd) block) (\<lambda>first.
               bindE (bounded_at nd block XX) (\<lambda>bx.
               bindE (bounded_at nd block YY) (\<lambda>by.
               bindE (bounded_at nd block ZZ) (\<lambda>bz.
               checked_return nd
                 (uint (first + nb_internal_nodes + of_bool bx * y_segs * z_segs
                    + of_bool by * x_segs * z_segs + of_bool bz * x_segs * y_segs + k))))))))
     else if i = x_segs \<and> j \<noteq> y_segs \<and> k = z_segs then
       liftR (bounded_at nd block XZ) (\<lambda>bxz.
       if \<not> bxz then
         liftR (bounded_at nd block XX) (\<lambda>bx.
         if \<not> bx then
           liftR (adjacent_block nd block KSI_POS) (\<lambda>x_adj.
           bindR (self x_adj 0 j k) (\<lambda>retval. Some (checked_return nd retval)))
         else
           liftR (adjacent_block nd block ZTA_POS) (\<lambda>z_adj.
           bindR (self z_adj i j 0) (\<lambda>retval. Some (checked_return nd retval))))
       else
         Some (bindE (vec_at (block_first_nodes nd) block) (\<lambda>first.
               bindE (bounded_at nd block XX) (\<lambda>bx.
               bindE (bounded_at nd block YY) (\<lambda>by.
               bindE (bounded_at nd block ZZ) (\<lambda>bz.
               bindE (bounded_at nd block XY) (\<lambda>bxy'.
               checked_return nd
                 (uint (first + nb_internal_nodes + of_bool bx * y_segs * z_segs
                    + of_bool by * x_segs * z_segs + of_bool bz * x_segs * y_segs
                    + of_bool bxy' * z_segs + j)))))))))
     else if i \<noteq> x_segs \<and> j = y_segs \<and> k = z_segs then
       liftR (bounded_at nd block YZ) (\<lambda>byz.
       if \<not> byz then
         liftR (bounded_at nd block YY) (\<lambda>by.
         if \<not> by then
           liftR (adjacent_block nd block ETA_POS) (\<lambda>y_adj.
           bindR (self y_adj i 0 k) (\<lambda>retval. Some (checked_return nd retval)))
         else
           liftR (adjacent_block nd block ZTA_POS) (\<lambda>z_adj.
           bindR (self z_adj i j 0) (\<lambda>retval. Some (checked_return nd retval))))
       else
         Some (bindE (vec_at (block_first_nodes nd) block) (\<lambda>first.
               bindE (bounded_at nd block XX) (\<lambda>bx.
               bindE (bounded_at nd block YY) (\<lambda>by.
               bindE (bounded_at nd block ZZ) (\<lambda>bz.
               bindE (bounded_at nd block XY) (\<lambda>bxy.
               bindE (bounded_at nd block XZ) (\<lambda>bxz.
               checked_return nd
                 (uint (first + nb_internal_nodes + of_bool bx * y_segs * z_segs
                    + of_bool by * x_segs * z_segs + of_bool bz * x_segs * y_segs
                    + of_bool bxy * z_segs + of_bool bxz * y_segs + i))))))))))
     else if i = x_segs \<and> j = y_segs \<and> k = z_segs then
       liftR (bounded_at nd block XYZ) (\<lambda>bxyz.
       if \<not> bxyz then
         liftR (bounded_at nd block XX) (\<lambda>bx.
         if \<not> bx then
           liftR (adjacent_block nd block KSI_POS) (\<lambda>x_adj.
           bindR (self x_adj 0 j k) (\<lambda>retval. Some (checked_return nd retval)))
         else
         liftR (bounded_at nd block YY) (\<lambda>by.
         if \<not> by then
           liftR (adjacent_block nd block ETA_POS) (\<lambda>y_adj.
           bindR (self y_adj i 0 k) (\<lambda>retval. Some (checked_return nd retval)))
         else
         liftR (bounded_at nd block ZZ) (\<lambda>bz.
         if \<not> bz then
           liftR (adjacent_block nd block ZTA_POS) (\<lambda>z_adj.
           bindR (self z_adj i j 0) (\<lambda>retval. Some (checked_return nd retval)))
         else Some (Inl ShouldNotBeHere))))
       else
         Some (bindE (vec_at (block_first_nodes nd) block) (\<lambda>first.
               bindE (bounded_at nd block XX) (\<lambda>bx.
               bindE (bounded_at nd block YY) (\<lambda>by.
               bindE (bounded_at nd block ZZ) (\<lambda>bz.
               bindE (bounded_at nd block XY) (\<lambda>bxy.
               bindE (bounded_at nd block XZ) (\<lambda>bxz.
               bindE (bounded_at nd block YZ) (\<lambda>byz.
               checked_return nd
                 (uint (first + nb_internal_nodes + of_bool bx * y_segs * z_segs
                    + of_bool by * x_segs * z_segs + of_bool bz * x_segs * y_segs
                    + of_bool bxy * z_segs + of_bool bxz * y_segs
                    + of_bool byz * x_segs)))))))))))
     else Some (Inl ShouldNotBeHere)))))"

primrec global_idx_3d ::
  "nat \<Rightarrow> 'a NodeIndices_scheme \<Rightarrow> nat \<Rightarrow> nat \<Rightarrow> nat \<Rightarrow> nat \<Rightarrow> nat result option" where
  "global_idx_3d 0 nd = (\<lambda>block i j k. None)"
| "global_idx_3d (Suc fuel) nd = global_idx_3d_body (global_idx_3d fuel nd) nd"

text \<open>
  \<^verbatim>\<open>NodeIndices3D::operator()\<close>: the global index, then the same steps as
  \<^verbatim>\<open>to_local\<close> on the members \<^verbatim>\<open>m_local_nodes_begin\<close>, \<^verbatim>\<open>m_local_nodes_end\<close>,
  \<^verbatim>\<open>ghost_counter\<close> and \<^verbatim>\<open>global_to_local\<close>.
\<close>

definition nodes_3d ::
  "nat \<Rightarrow> 'a NodeIndices_scheme \<Rightarrow> nat \<Rightarrow> nat \<Rightarrow> nat \<Rightarrow> nat \<Rightarrow>
     (nat \<times> 'a NodeIndices_scheme) result option" where
  "nodes_3d fuel nd block i j k =
     bindR (global_idx_3d fuel nd block i j k) (\<lambda>gid.
       if gid \<ge> local_nodes_begin nd \<and> gid < local_nodes_end nd
       then Some (Inr (gid - local_nodes_begin nd, nd))
       else
         let lid = uint (uint_minus (local_nodes_end nd) (local_nodes_begin nd) + ghost_counter nd) in
         (case global_to_local nd gid of
            Some stored \<Rightarrow> Some (Inr (stored, nd))
          | None \<Rightarrow>
              Some (Inr (lid, nd\<lparr>global_to_local := (global_to_local nd)(gid \<mapsto> lid),
                                ghost_counter := uint (ghost_counter nd + 1)\<rparr>))))"

text \<open>The constructor of \<^verbatim>\<open>NodeIndices2D\<close>.\<close>

definition bounded_row_2d :: "CFaceConnectivity \<Rightarrow> nat \<Rightarrow> bool list result" where
  "bounded_row_2d fc block =
     bindE (adjacent_element fc block XPOS) (\<lambda>x_adj.
     bindE (adjacent_element fc block YPOS) (\<lambda>y_adj.
       let bx = (dimensionality x_adj = DIM_1D);
           by = (dimensionality y_adj = DIM_1D)
       in Inr [bx, by, bx \<and> by]))"

definition nb_nodes_2d :: "nat list \<Rightarrow> bool list \<Rightarrow> nat result" where
  "nb_nodes_2d segments row =
     bindE (vec_at segments XX) (\<lambda>x_segs.
     bindE (vec_at segments YY) (\<lambda>y_segs.
     bindE (vec_at row XX) (\<lambda>bx. bindE (vec_at row YY) (\<lambda>by.
     bindE (vec_at row XY_2D) (\<lambda>bxy.
       Inr (uint (x_segs * y_segs + of_bool bx * y_segs + of_bool by * x_segs + of_bool bxy)))))))"

definition first_nodes_step_2d ::
  "CFaceConnectivity \<Rightarrow> BlockData \<Rightarrow> nat \<Rightarrow> bool list list \<times> nat list \<Rightarrow>
     (bool list list \<times> nat list) result" where
  "first_nodes_step_2d face_connectivity block_data block acc =
     (case acc of (bnd, first_nodes) \<Rightarrow>
        bindE (vec_at (block_subdivisions block_data) block) (\<lambda>segments.
        bindE (bounded_row_2d face_connectivity block) (\<lambda>row.
        bindE (nb_nodes_2d segments row) (\<lambda>nb_nodes.
        bindE (vec_back first_nodes) (\<lambda>back.
          Inr (bnd @ [row], first_nodes @ [uint (back + nb_nodes)]))))))"

definition NodeIndices2D :: "CFaceConnectivity \<Rightarrow> BlockData \<Rightarrow> nat \<Rightarrow> nat \<Rightarrow> NodeIndices result" where
  "NodeIndices2D face_connectivity block_data rank nb_procs =
     (let nb_blocks = length (block_subdivisions block_data) in
      bindE (foldE (first_nodes_step_2d face_connectivity block_data) [0..<nb_blocks] ([], [0]))
        (\<lambda>(bnd, first_nodes).
      bindE (nodes_dist_loop first_nodes (block_distribution block_data) nb_procs) (\<lambda>dist.
      bindE (vec_at dist rank) (\<lambda>nodes_begin.
      bindE (vec_at dist (uint (rank + 1))) (\<lambda>nodes_end.
        Inr \<lparr>local_nodes_begin = nodes_begin, local_nodes_end = nodes_end,
             ghost_counter = 0, global_to_local = Map.empty,
             block_first_nodes = first_nodes, nodes_dist = dist, bounded = bnd,
             m_face_connectivity = face_connectivity, m_block_data = block_data,
             m_rank = rank, m_nb_procs = nb_procs\<rparr>)))))"

text \<open>One call of \<^verbatim>\<open>NodeIndices2D::global_idx\<close>.\<close>

definition global_idx_2d_body ::
  "(nat \<Rightarrow> nat \<Rightarrow> nat \<Rightarrow> nat result option) \<Rightarrow> 'a NodeIndices_scheme \<Rightarrow>
     nat \<Rightarrow> nat \<Rightarrow> nat \<Rightarrow> nat result option" where
  "global_idx_2d_body self nd block i j =
    (let subdivisions = block_subdivisions (m_block_data nd) in
     if \<not> block < length subdivisions then Some (Inl FailedAssertion) else
     let segments = subdivisions ! block in
     liftR (vec_at segments XX) (\<lambda>x_segs.
     liftR (vec_at segments YY) (\<lambda>y_segs.
     let nb_internal_nodes = x_segs * y_segs in
     if \<not> i \<le> x_segs then Some (Inl FailedAssertion) else
     if \<not> j \<le> y_segs then Some (Inl FailedAssertion) else
     if i \<noteq> x_segs \<and> j \<noteq> y_segs then
       Some (bindE (vec_at (block_first_nodes nd) block) (\<lambda>first.
             checked_return nd (uint (first + i + j * x_segs))))
     else if i = x_segs \<and> j \<noteq> y_segs then
       liftR (bounded_at nd block XX) (\<lambda>bx.
       if \<not> bx then
         Some (bindE (adjacent_block nd block XPOS) (\<lambda>adj_block.
               bindE (vec_at subdivisions adj_block) (\<lambda>adj_segs.
               bindE (vec_at (block_first_nodes nd) adj_block) (\<lambda>first.
               bindE (vec_at adj_segs XX) (\<lambda>adj_x.
               checked_return nd (uint (first + j * adj_x)))))))
       else
         Some (bindE (vec_at (block_first_nodes nd) block) (\<lambda>first.
               checked_return nd (uint (first + nb_internal_nodes + j)))))
     else if i \<noteq> x_segs \<and> j = y_segs then
       liftR (bounded_at nd block YY) (\<lambda>by.
       if \<not> by then
         Some (bindE (adjacent_block nd block YPOS) (\<lambda>adj_block.
               bindE (vec_at subdivisions adj_block) (\<lambda>adj_segs.
               bindE (vec_at (block_first_nodes nd) adj_block) (\<lambda>first.
               checked_return nd (uint (first + i))))))
       else
         Some (bindE (vec_at (block_first_nodes nd) block) (\<lambda>first.
               bindE (bounded_at nd block XX) (\<lambda>bx.
               checked_return nd (uint (first + nb_internal_nodes + of_bool bx * y_segs + i))))))
     else if i = x_segs \<and> j = y_segs then
       liftR (bounded_at nd block XY_2D) (\<lambda>bxy.
       if \<not> bxy then
         liftR (bounded_at nd block XX) (\<lambda>bx.
         if \<not> bx then
           liftR (adjacent_block nd block XPOS) (\<lambda>x_adj.
           bindR (self x_adj 0 j) (\<lambda>retval. Some (checked_return nd retval)))
         else
         liftR (bounded_at nd block YY) (\<lambda>by.
         if \<not> by then
           liftR (adjacent_block nd block YPOS) (\<lambda>y_adj.
           bindR (self y_adj i 0) (\<lambda>retval. Some (checked_return nd retval)))
         else Some (Inl ShouldNotBeHere)))
       else
         Some (bindE (vec_at (block_first_nodes nd) block) (\<lambda>first.
               bindE (bounded_at nd block XX) (\<lambda>bx.
               bindE (bounded_at nd block YY) (\<lambda>by.
               checked_return nd
                 (uint (first + nb_internal_nodes + of_bool bx * y_segs + of_bool by * x_segs)))))))
     else Some (Inl ShouldNotBeHere))))"

primrec global_idx_2d ::
  "nat \<Rightarrow> 'a NodeIndices_scheme \<Rightarrow> nat \<Rightarrow> nat \<Rightarrow> nat \<Rightarrow> nat result option" where
  "global_idx_2d 0 nd = (\<lambda>block i j. None)"
| "global_idx_2d (Suc fuel) nd = global_idx_2d_body (global_idx_2d fuel nd) nd"

text \<open>\<^verbatim>\<open>NodeIndices2D::operator()\<close>.\<close>

definition nodes_2d ::
  "nat \<Rightarrow> 'a NodeIndices_scheme \<Rightarrow> nat \<Rightarrow> nat \<Rightarrow> nat \<Rightarrow>
     (nat \<times> 'a NodeIndices_scheme) result option" where
  "nodes_2d fuel nd block i j =
     bindR (global_idx_2d fuel nd block i j) (\<lambda>gid.
       if gid \<ge> local_nodes_begin nd \<and> gid < local_nodes_end nd
       then Some (Inr (gid - local_nodes_begin nd, nd))
       else
         let lid = uint (uint_minus (local_nodes_end nd) (local_nodes_begin nd) + ghost_counter nd) in
         (case global_to_local nd gid of
            Some stored \<Rightarrow> Some (Inr (stored, nd))
          | None \<Rightarrow>
              Some (Inr (lid, nd\<lparr>global_to_local := (global_to_local nd)(gid \<mapsto> lid),
                                ghost_counter := uint (ghost_counter nd + 1)\<rparr>))))"

section \<open>\<^verbatim>\<open>BlockArrays::Implementation\<close>: blocks and patches\<close>

text \<open>
  \<^verbatim>\<open>struct Block\<close>. \<open>bounded_pos\<close> is the member \<^verbatim>\<open>bounded\<close>. A neighbour is a pointer into
  \<^verbatim>\<open>block_list\<close>, here the index of the block it points to; \<open>None\<close> is the null
  pointer. \<^verbatim>\<open>nb_elems\<close> and \<^verbatim>\<open>start_index\<close> are not initialised by the constructor
  and are assigned by \<^verbatim>\<open>create_blocks\<close> before they are read.
\<close>

record Block =
  dimensions :: nat
  search_indices :: "nat list"
  nb_points :: "nat list"
  nb_elems :: nat
  segments :: "nat list"
  bounded_pos :: "bool list"
  neighbors :: "nat option list"
  strides :: "nat list"
  start_index :: nat

definition new_Block :: "nat \<Rightarrow> Block" where
  "new_Block dm =
     \<lparr>dimensions = dm, search_indices = [], nb_points = replicate dm 0, nb_elems = 0,
      segments = replicate dm 0, bounded_pos = replicate dm False,
      neighbors = replicate dm None, strides = replicate dm 0, start_index = 0\<rparr>"

text \<open>
  \<^verbatim>\<open>struct Patch\<close>. The member \<^verbatim>\<open>const Block& block\<close> refers to an element of
  \<^verbatim>\<open>block_list\<close>, here its index.
\<close>

record Patch =
  patch_block :: nat
  patch_nb_elems :: nat
  patch_segments :: "nat list"
  fixed_direction :: nat
  fixed_idx :: nat

text \<open>The constructor of \<^verbatim>\<open>Patch\<close>.\<close>

definition new_Patch :: "nat \<Rightarrow> Block \<Rightarrow> nat \<Rightarrow> nat \<Rightarrow> Patch result" where
  "new_Patch block_idx a_block fixed_dir idx =
     bindE (foldE (\<lambda>i (segs, n).
              if i \<noteq> fixed_dir
              then bindE (vec_at (segments a_block) i) (\<lambda>s. Inr (segs @ [s], uint (n * s)))
              else Inr (segs, n))
            [0..<dimensions a_block] ([], 1)) (\<lambda>(segs, n).
       Inr \<lparr>patch_block = block_idx, patch_nb_elems = n, patch_segments = segs,
            fixed_direction = fixed_dir, fixed_idx = idx\<rparr>)"

text \<open>
  \<^verbatim>\<open>BlockArrays::Implementation\<close>: the helper data of the mesh connectivity. The tables
  supplied by the user (points, blocks, subdivisions, gradings, patches) and the face
  connectivity of the block mesh are arguments of the functions that read them.
\<close>

record Implementation = LocalIndex +
  block_list :: "Block list"
  patch_map :: "string \<rightharpoonup> Patch list"
  nodes_dist_impl :: "nat list"

definition positive_faces :: "nat \<Rightarrow> nat list" where
  "positive_faces dm = (if dm = 3 then [KSI_POS, ETA_POS, ZTA_POS] else [1, 2])"

definition negative_faces :: "nat \<Rightarrow> nat list" where
  "negative_faces dm = (if dm = 3 then [KSI_NEG, ETA_NEG, ZTA_NEG] else [3, 0])"

text \<open>
  The first inner loop of \<^verbatim>\<open>create_blocks\<close>, over the axes of one block; the state is
  the block, \<^verbatim>\<open>stride\<close> and \<^verbatim>\<open>nb_points\<close>.
\<close>

definition create_blocks_axis ::
  "nat \<Rightarrow> CFaceConnectivity \<Rightarrow> nat list \<Rightarrow> nat \<Rightarrow> nat \<Rightarrow> Block \<times> nat \<times> nat \<Rightarrow>
     (Block \<times> nat \<times> nat) result" where
  "create_blocks_axis dm face_conn subdiv_row block_idx i acc =
     (case acc of (block, stride, nb_pts) \<Rightarrow>
        bindE (vec_at (positive_faces dm) i) (\<lambda>face.
        bindE (adjacent_element face_conn block_idx face) (\<lambda>adj_elem.
        bindE (vec_at subdiv_row i) (\<lambda>subdiv.
        if \<not> i < dm then Inl OutOfRange else
        let bnd = (dimensionality adj_elem \<noteq> dm);
            pts = uint (subdiv + (if bnd then 1 else 0));
            block' = block\<lparr>strides := (strides block)[i := stride],
                           bounded_pos := (bounded_pos block)[i := bnd],
                           nb_points := (nb_points block)[i := pts],
                           segments := (segments block)[i := subdiv],
                           nb_elems := uint (nb_elems block * subdiv),
                           neighbors := (neighbors block)
                              [i := (if bnd then None else Some (element_idx adj_elem))]\<rparr>
        in Inr (block', uint (stride * pts), uint (nb_pts * pts))))))"

text \<open>The second inner loop of \<^verbatim>\<open>create_blocks\<close>: the patches of one block.\<close>

definition add_to_patch_map :: "(string \<rightharpoonup> Patch list) \<Rightarrow> string \<Rightarrow> Patch \<Rightarrow> (string \<rightharpoonup> Patch list)" where
  "add_to_patch_map pm name patch =
     pm(name \<mapsto> (case pm name of None \<Rightarrow> [] | Some ps \<Rightarrow> ps) @ [patch])"

definition create_blocks_patch_dir ::
  "nat \<Rightarrow> nat \<Rightarrow> Block \<Rightarrow> nat \<Rightarrow> ElementReference \<Rightarrow> nat \<Rightarrow> (string \<rightharpoonup> Patch list) \<Rightarrow>
     (string \<rightharpoonup> Patch list) result" where
  "create_blocks_patch_dir dm block_idx block i adj dir pm =
     (if dimensionality adj = uint_minus dm 1
      then bindE (vec_at (nb_points block) i) (\<lambda>pts.
           bindE (new_Patch block_idx block i (uint (dir * uint_minus pts 1))) (\<lambda>patch.
             Inr (add_to_patch_map pm (parent_name adj) patch)))
      else Inr pm)"

definition create_blocks_patches ::
  "nat \<Rightarrow> CFaceConnectivity \<Rightarrow> nat \<Rightarrow> Block \<Rightarrow> nat \<Rightarrow> (string \<rightharpoonup> Patch list) \<Rightarrow>
     (string \<rightharpoonup> Patch list) result" where
  "create_blocks_patches dm face_conn block_idx block i pm =
     bindE (vec_at (negative_faces dm) i) (\<lambda>neg_face.
     bindE (adjacent_element face_conn block_idx neg_face) (\<lambda>adj0.
     bindE (vec_at (positive_faces dm) i) (\<lambda>pos_face.
     bindE (adjacent_element face_conn block_idx pos_face) (\<lambda>adj1.
     bindE (create_blocks_patch_dir dm block_idx block i adj0 0 pm) (\<lambda>pm'.
       create_blocks_patch_dir dm block_idx block i adj1 1 pm')))))"

text \<open>One iteration of the loop over the blocks; the state is the block list, the patch
  map and \<^verbatim>\<open>block_start\<close>.\<close>

definition create_blocks_step ::
  "nat \<Rightarrow> nat list list \<Rightarrow> nat list list \<Rightarrow> CFaceConnectivity \<Rightarrow> nat \<Rightarrow>
     Block list \<times> (string \<rightharpoonup> Patch list) \<times> nat \<Rightarrow>
     (Block list \<times> (string \<rightharpoonup> Patch list) \<times> nat) result" where
  "create_blocks_step dm blocks block_subdivs face_conn block_idx acc =
     (case acc of (bl, pm, block_start) \<Rightarrow>
        bindE (vec_at bl block_idx) (\<lambda>block0.
        bindE (vec_at blocks block_idx) (\<lambda>row.
        bindE (vec_at block_subdivs block_idx) (\<lambda>subdiv_row.
        bindE (foldE (create_blocks_axis dm face_conn subdiv_row block_idx) [0..<dm]
                 (block0\<lparr>start_index := block_start, nb_elems := 1\<rparr>, 1, 1))
          (\<lambda>(block, stride, nb_pts).
        bindE (foldE (create_blocks_patches dm face_conn block_idx block) [0..<dm] pm) (\<lambda>pm'.
          Inr (bl[block_idx := block], pm', uint (block_start + nb_pts))))))))"

text \<open>
  \<^verbatim>\<open>create_blocks\<close>: \<open>dm\<close> is \<^verbatim>\<open>points->row_size()\<close>, \<open>blocks\<close> and \<open>block_subdivs\<close> are
  the tables of the block corners and of the subdivisions. The result is the block
  list and the patch map; \<open>ghost_counter\<close> is reset to zero.
\<close>

definition create_blocks ::
  "nat \<Rightarrow> nat list list \<Rightarrow> nat list list \<Rightarrow> CFaceConnectivity \<Rightarrow> 'a Implementation_scheme \<Rightarrow>
     'a Implementation_scheme result" where
  "create_blocks dm blocks block_subdivs face_conn impl =
     (let nb_blocks = length blocks in
      bindE (foldE (create_blocks_step dm blocks block_subdivs face_conn) [0..<nb_blocks]
               (replicate nb_blocks (new_Block dm), patch_map impl, 0)) (\<lambda>(bl, pm, block_start).
        Inr (impl\<lparr>ghost_counter := 0, block_list := bl, patch_map := pm\<rparr>)))"

section \<open>Sequences of requests\<close>

text \<open>
  The ghost map and the ghost counter are written by \<^verbatim>\<open>to_local\<close> (and by the identical
  steps of \<^verbatim>\<open>operator()\<close>) only. A state reached during mesh generation is therefore the
  state after some sequence of requested global indices. A global index is remote when
  it lies outside the local range.
\<close>

fun requests :: "nat list \<Rightarrow> 'a LocalIndex_scheme \<Rightarrow> 'a LocalIndex_scheme" where
  "requests [] s = s"
| "requests (gid # gids) s = requests gids (snd (to_local gid s))"

definition remote :: "'a LocalIndex_scheme \<Rightarrow> nat \<Rightarrow> bool" where
  "remote s gid = (\<not> (local_nodes_begin s \<le> gid \<and> gid < local_nodes_end s))"


section \<open>Example inputs\<close>

text \<open>A rank that owns the global indices 2, 3 and 4 and has no ghost node yet.\<close>

definition example_local_index :: LocalIndex where
  "example_local_index =
     \<lparr>local_nodes_begin = 2, local_nodes_end = 5, ghost_counter = 0, global_to_local = Map.empty\<rparr>"

text \<open>
  A state with \<open>local_nodes_end < local_nodes_begin\<close>, as the constructors leave it when
  the block distribution decreases.
\<close>

definition reversed_local_index :: LocalIndex where
  "reversed_local_index =
     \<lparr>local_nodes_begin = 5, local_nodes_end = 2, ghost_counter = 3, global_to_local = Map.empty\<rparr>"

text \<open>
  Element references of the examples: a block of a \<open>dm\<close>-dimensional block mesh, and a
  face of the boundary region \<open>name\<close>.
\<close>

definition volume_ref :: "nat \<Rightarrow> nat \<Rightarrow> ElementReference" where
  "volume_ref dm b = \<lparr>dimensionality = dm, parent_name = ''blocks'', element_idx = b\<rparr>"

definition surface_ref :: "nat \<Rightarrow> string \<Rightarrow> nat \<Rightarrow> ElementReference" where
  "surface_ref dm name n = \<lparr>dimensionality = dm - 1, parent_name = name, element_idx = n\<rparr>"

text \<open>
  The two-block channel: two hexahedral blocks of \<open>4 \<times> 2 \<times> 2\<close> segments; the \<open>+\<xi>\<close> face
  of block 0 is the \<open>-\<xi>\<close> face of block 1 and every other face lies in the patch
  \<open>wall\<close>. One block per process.
\<close>

definition channel_connectivity :: CFaceConnectivity where
  "channel_connectivity block face =
     (if block = 0 \<and> face = KSI_POS then Some (volume_ref 3 1)
      else if block = 1 \<and> face = KSI_NEG then Some (volume_ref 3 0)
      else Some (surface_ref 3 ''wall'' 0))"

definition channel_data :: BlockData where
  "channel_data = \<lparr>dimension = 3,
     points = [[0,0,0],[1,0,0],[2,0,0],[0,1,0],[1,1,0],[2,1,0],
               [0,0,1],[1,0,1],[2,0,1],[0,1,1],[1,1,1],[2,1,1]],
     block_points = [[0,1,4,3,6,7,10,9],[1,2,5,4,7,8,11,10]],
     block_subdivisions = [[4,2,2],[4,2,2]],
     block_gradings = [[1,1,1,1,1,1,1,1,1,1,1,1],[1,1,1,1,1,1,1,1,1,1,1,1]],
     block_distribution = [0,1,2],
     patch_names = [''wall''],
     patch_points = [[0,3,4,1, 1,4,5,2, 6,7,10,9, 7,8,11,10, 0,1,7,6, 1,2,8,7,
                      3,9,10,4, 4,10,11,5, 0,6,9,3, 2,5,11,8]]\<rparr>"

text \<open>
  The L-shaped domain of three quadrilateral blocks of \<open>1 \<times> 1\<close> segment: block 1 lies
  on the \<open>+\<xi>\<close> side of block 0 and block 2 on its \<open>+\<eta>\<close> side; the place diagonally
  opposite block 0 is empty.
\<close>

definition l_shape_connectivity :: CFaceConnectivity where
  "l_shape_connectivity block face =
     (if block = 0 \<and> face = XPOS then Some (volume_ref 2 1)
      else if block = 0 \<and> face = YPOS then Some (volume_ref 2 2)
      else if block = 1 \<and> face = XNEG then Some (volume_ref 2 0)
      else if block = 2 \<and> face = YNEG then Some (volume_ref 2 0)
      else Some (surface_ref 2 ''wall'' 0))"

definition l_shape_data :: BlockData where
  "l_shape_data = \<lparr>dimension = 2,
     points = [[0,0],[1,0],[2,0],[0,1],[1,1],[2,1],[0,2],[1,2]],
     block_points = [[0,1,4,3],[1,2,5,4],[3,4,7,6]],
     block_subdivisions = [[1,1],[1,1],[1,1]],
     block_gradings = [[1,1,1,1],[1,1,1,1],[1,1,1,1]],
     block_distribution = [0,3],
     patch_names = [''wall''],
     patch_points = [[0,1, 1,2, 2,5, 5,4, 4,7, 7,6, 6,3, 3,0]]\<rparr>"

text \<open>A default-constructed \<^verbatim>\<open>Implementation\<close>.\<close>

definition new_Implementation :: Implementation where
  "new_Implementation =
     \<lparr>local_nodes_begin = 0, local_nodes_end = 0, ghost_counter = 0, global_to_local = Map.empty,
      block_list = [], patch_map = Map.empty, nodes_dist_impl = []\<rparr>"


section \<open>Invariants of the loops\<close>

definition counted_3d :: "CFaceConnectivity \<Rightarrow> BlockData \<Rightarrow> nat \<Rightarrow> bool list \<Rightarrow> nat \<Rightarrow> bool" where
  "counted_3d fc bd b row m =
     (b < length (block_subdivisions bd) \<and> bounded_row_3d fc b = Inr row \<and>
      nb_nodes_3d (block_subdivisions bd ! b) row = Inr m)"


definition axis_done :: "nat \<Rightarrow> CFaceConnectivity \<Rightarrow> nat list \<Rightarrow> nat \<Rightarrow> Block \<Rightarrow> nat \<Rightarrow> bool" where
  "axis_done dm fc subdiv_row b block d =
     (\<exists>r. fc b (positive_faces dm ! d) = Some r \<and> d < length subdiv_row \<and>
          bounded_pos block ! d = (dimensionality r \<noteq> dm) \<and>
          nb_points block ! d = uint (subdiv_row ! d + of_bool (dimensionality r \<noteq> dm)) \<and>
          segments block ! d = subdiv_row ! d)"

definition axis_inv ::
  "nat \<Rightarrow> CFaceConnectivity \<Rightarrow> nat list \<Rightarrow> nat \<Rightarrow> Block \<Rightarrow> nat \<Rightarrow> Block \<times> nat \<times> nat \<Rightarrow> bool" where
  "axis_inv dm fc subdiv_row b block0 m acc =
     (case acc of (block, stride, nb_pts) \<Rightarrow>
        length (nb_points block) = length (nb_points block0) \<and>
        length (bounded_pos block) = length (bounded_pos block0) \<and>
        length (segments block) = length (segments block0) \<and>
        start_index block = start_index block0 \<and>
        nb_pts = uint (\<Prod>d<m. nb_points block ! d) \<and>
        (\<forall>d<m. axis_done dm fc subdiv_row b block d))"

definition owned_points :: "nat \<Rightarrow> Block \<Rightarrow> nat" where
  "owned_points dm block = (\<Prod>d<dm. nb_points block ! d)"

definition block_done ::
  "nat \<Rightarrow> CFaceConnectivity \<Rightarrow> nat list list \<Rightarrow> Block list \<Rightarrow> nat \<Rightarrow> bool" where
  "block_done dm fc subdivs bl b =
     ((\<forall>d<dm. axis_done dm fc (subdivs ! b) b (bl ! b) d) \<and>
      start_index (bl ! b) = uint (\<Sum>b'<b. owned_points dm (bl ! b')))"

definition blocks_inv ::
  "nat \<Rightarrow> CFaceConnectivity \<Rightarrow> nat list list \<Rightarrow> nat \<Rightarrow> nat \<Rightarrow>
     Block list \<times> (string \<rightharpoonup> Patch list) \<times> nat \<Rightarrow> bool" where
  "blocks_inv dm fc subdivs n m acc =
     (case acc of (bl, pm, block_start) \<Rightarrow>
        length bl = n \<and> (\<forall>b. m \<le> b \<and> b < n \<longrightarrow> bl ! b = new_Block dm) \<and>
        block_start = uint (\<Sum>b<m. owned_points dm (bl ! b)) \<and>
        (\<forall>b<m. block_done dm fc subdivs bl b))"

section \<open>Regular block topologies\<close>

text \<open>
  The neighbour of a block in the positive direction of an axis: the block behind the
  face, when the element adjacent to the face is not a boundary element.
\<close>

definition seg_count :: "BlockData \<Rightarrow> nat \<Rightarrow> nat \<Rightarrow> nat" where
  "seg_count bd b d = block_subdivisions bd ! b ! d"


definition neighbour_2d :: "CFaceConnectivity \<Rightarrow> nat \<Rightarrow> nat \<Rightarrow> nat option" where
  "neighbour_2d fc b d =
     (case fc b ([XPOS, YPOS] ! d) of
        None \<Rightarrow> None
      | Some r \<Rightarrow> if dimensionality r = DIM_1D then None else Some (element_idx r))"

text \<open>
  A block topology is regular when every block has \<open>dm\<close> positive segment counts, every
  positive face has an adjacent element, a neighbour is a block with the same segment
  counts along the other axes (the subdivisions conform across the shared face), and
  whenever a block has neighbours in two positive directions, these two have a common
  neighbour that closes the square (no block is missing diagonally opposite).
\<close>

definition regular ::
  "nat \<Rightarrow> (CFaceConnectivity \<Rightarrow> nat \<Rightarrow> nat \<Rightarrow> nat option) \<Rightarrow> nat list \<Rightarrow>
     CFaceConnectivity \<Rightarrow> BlockData \<Rightarrow> bool" where
  "regular dm nbr faces fc bd =
     (\<forall>b \<in> set [0..<length (block_subdivisions bd)].
        length (block_subdivisions bd ! b) = dm \<and>
        (\<forall>d \<in> set [0..<dm].
           0 < seg_count bd b d \<and> fc b (faces ! d) \<noteq> None \<and>
           (case nbr fc b d of
              None \<Rightarrow> True
            | Some c \<Rightarrow>
                c < length (block_subdivisions bd) \<and>
                (\<forall>e \<in> set [0..<dm]. e \<noteq> d \<longrightarrow>
                   seg_count bd c e = seg_count bd b e \<and>
                   (case nbr fc b e of
                      None \<Rightarrow> True
                    | Some c' \<Rightarrow> nbr fc c e \<noteq> None \<and> nbr fc c e = nbr fc c' d)))))"


definition regular_2d :: "CFaceConnectivity \<Rightarrow> BlockData \<Rightarrow> bool" where
  "regular_2d = regular 2 neighbour_2d [XPOS, YPOS]"



section \<open>Shared faces\<close>

definition sgc :: "'a NodeIndices_scheme \<Rightarrow> nat \<Rightarrow> nat \<Rightarrow> nat" where
  "sgc nd b d = seg_count (m_block_data nd) b d"

definition nbr2 :: "'a NodeIndices_scheme \<Rightarrow> nat \<Rightarrow> nat \<Rightarrow> nat option" where
  "nbr2 nd b d = neighbour_2d (m_face_connectivity nd) b d"

definition nb_blocks_of :: "'a NodeIndices_scheme \<Rightarrow> nat" where
  "nb_blocks_of nd = length (block_subdivisions (m_block_data nd))"

definition count_2d :: "'a NodeIndices_scheme \<Rightarrow> nat \<Rightarrow> nat" where
  "count_2d nd b =
     sgc nd b 0 * sgc nd b 1 + of_bool (nbr2 nd b 0 = None) * sgc nd b 1
       + of_bool (nbr2 nd b 1 = None) * sgc nd b 0
       + of_bool (nbr2 nd b 0 = None \<and> nbr2 nd b 1 = None)"

definition node_total :: "'a NodeIndices_scheme \<Rightarrow> nat" where
  "node_total nd = last (block_first_nodes nd)"

text \<open>
  An oracle over a regular topology whose node counts have not wrapped: the first node
  of a block is the first node of the block before it plus the number of nodes that
  block owns, and the total is a \<^verbatim>\<open>Uint\<close>.
\<close>

definition oracle_ok_2d :: "'a NodeIndices_scheme \<Rightarrow> bool" where
  "oracle_ok_2d nd =
     (regular_2d (m_face_connectivity nd) (m_block_data nd) \<and>
      length (bounded nd) = nb_blocks_of nd \<and>
      length (block_first_nodes nd) = nb_blocks_of nd + 1 \<and>
      (\<forall>b<nb_blocks_of nd.
         bounded_row_2d (m_face_connectivity nd) b = Inr (bounded nd ! b) \<and>
         block_first_nodes nd ! (b + 1) = block_first_nodes nd ! b + count_2d nd b) \<and>
      node_total nd < 2 ^ 32)"

definition ret_checked :: "'a NodeIndices_scheme \<Rightarrow> nat \<Rightarrow> nat result" where
  "ret_checked nd r = (if r < node_total nd then Inr r else Inl FailedAssertion)"

text \<open>The instance of the hop argument for the 2D oracle: a state is \<open>(block, i, j)\<close>.\<close>

definition ok2 :: "'a NodeIndices_scheme \<Rightarrow> nat \<times> nat \<times> nat \<Rightarrow> bool" where
  "ok2 nd s = (case s of (b, i, j) \<Rightarrow>
     oracle_ok_2d nd \<and> b < nb_blocks_of nd \<and> i \<le> sgc nd b 0 \<and> j \<le> sgc nd b 1)"

definition can_hop2 :: "'a NodeIndices_scheme \<Rightarrow> nat \<times> nat \<times> nat \<Rightarrow> nat \<Rightarrow> bool" where
  "can_hop2 nd s d = (case s of (b, i, j) \<Rightarrow>
     d < 2 \<and> [i, j] ! d = sgc nd b d \<and> nbr2 nd b d \<noteq> None)"

definition hop2 :: "'a NodeIndices_scheme \<Rightarrow> nat \<times> nat \<times> nat \<Rightarrow> nat \<Rightarrow> nat \<times> nat \<times> nat" where
  "hop2 nd s d = (case s of (b, i, j) \<Rightarrow>
     (the (nbr2 nd b d), if d = 0 then 0 else i, if d = 0 then j else 0))"

definition on_max2 :: "'a NodeIndices_scheme \<Rightarrow> nat \<times> nat \<times> nat \<Rightarrow> nat" where
  "on_max2 nd s = (case s of (b, i, j) \<Rightarrow>
     of_bool (i = sgc nd b 0) + of_bool (j = sgc nd b 1))"

definition first2 :: "'a NodeIndices_scheme \<Rightarrow> nat \<times> nat \<times> nat \<Rightarrow> nat option" where
  "first2 nd s = (case s of (b, i, j) \<Rightarrow>
     if i = sgc nd b 0 \<and> nbr2 nd b 0 \<noteq> None then Some 0
     else if j = sgc nd b 1 \<and> nbr2 nd b 1 \<noteq> None then Some 1 else None)"

definition own2 :: "'a NodeIndices_scheme \<Rightarrow> nat \<times> nat \<times> nat \<Rightarrow> nat" where
  "own2 nd s = (case s of (b, i, j) \<Rightarrow>
     block_first_nodes nd ! b +
     (if i \<noteq> sgc nd b 0 \<and> j \<noteq> sgc nd b 1 then i + j * sgc nd b 0
      else if i = sgc nd b 0 \<and> j \<noteq> sgc nd b 1 then sgc nd b 0 * sgc nd b 1 + j
      else if i \<noteq> sgc nd b 0 \<and> j = sgc nd b 1 then
        sgc nd b 0 * sgc nd b 1 + of_bool (nbr2 nd b 0 = None) * sgc nd b 1 + i
      else sgc nd b 0 * sgc nd b 1 + sgc nd b 1 + sgc nd b 0))"

definition run2 :: "'a NodeIndices_scheme \<Rightarrow> nat \<Rightarrow> nat \<times> nat \<times> nat \<Rightarrow> nat result option" where
  "run2 nd f s = (case s of (b, i, j) \<Rightarrow> global_idx_2d f nd b i j)"













section \<open>The arithmetic of \<^verbatim>\<open>Uint\<close>\<close>

lemma uint_add: "uint (uint a + b) = uint (a + b)" "uint (a + uint b) = uint (a + b)"
  by (simp_all add: uint_def mod_simps)

lemma uint_mult: "uint (uint a * b) = uint (a * b)" "uint (a * uint b) = uint (a * b)"
  by (simp_all add: uint_def mod_simps)

lemma uint_id: "n < 2 ^ 32 \<Longrightarrow> uint n = n"
  by (simp add: uint_def)

lemma uint_range: "uint n < 2 ^ 32"
  by (simp add: uint_def)

lemma uint_le: "uint n \<le> n"
  by (simp add: uint_def)

lemma uint_uint: "uint (uint n) = uint n"
  by (simp add: uint_def)

lemma uint_minus_uint: "b \<le> a \<Longrightarrow> uint_minus a b = uint (a - b)"
proof -
  assume le: "b \<le> a"
  define q where "q = b div 2 ^ 32"
  define r where "r = b mod 2 ^ 32"
  define M :: nat where "M = 2 ^ 32"
  have r: "r < M" by (simp add: r_def M_def)
  have b: "b = M * q + r" by (simp add: q_def r_def M_def)
  have "a + (M - r) = (a - b) + M * (q + 1)"
    using le r unfolding b by (simp add: algebra_simps)
  moreover have "((a - b) + M * (q + 1)) mod M = (a - b) mod M"
    by (rule mod_mult_self2)
  ultimately have "(a + (M - r)) mod M = (a - b) mod M" by simp
  then show ?thesis by (simp add: uint_minus_def uint_def r_def M_def)
qed

lemma uint_minus_id: "b \<le> a \<Longrightarrow> a - b < 2 ^ 32 \<Longrightarrow> uint_minus a b = a - b"
  by (simp add: uint_minus_uint uint_id)

lemma uint_minus_wrap:
  "a < b \<Longrightarrow> b < 2 ^ 32 \<Longrightarrow> uint_minus a b = a + 2 ^ 32 - b"
  by (simp add: uint_minus_def uint_def)

lemma uint_sum: "uint (\<Sum>b<(n::nat). uint (f b)) = uint (\<Sum>b<n. f b)"
proof (induction n)
  case 0
  show ?case by simp
next
  case (Suc n)
  have "uint ((\<Sum>b<n. uint (f b)) + uint (f n)) = uint (uint (\<Sum>b<n. uint (f b)) + f n)"
    by (simp add: uint_add)
  also have "\<dots> = uint ((\<Sum>b<n. f b) + f n)" by (simp add: Suc uint_add)
  finally show ?case by simp
qed

lemma uint_prod: "uint (\<Prod>d<(n::nat). uint (f d)) = uint (\<Prod>d<n. f d)"
proof (induction n)
  case 0
  show ?case by simp
next
  case (Suc n)
  have "uint ((\<Prod>d<n. uint (f d)) * uint (f n)) = uint (uint (\<Prod>d<n. uint (f d)) * f n)"
    by (simp add: uint_mult)
  also have "\<dots> = uint ((\<Prod>d<n. f d) * f n)" by (simp add: Suc uint_mult)
  finally show ?case by simp
qed

text \<open>Differences, read in the integers.\<close>

lemma int_uint: "int (uint n) = int n mod 2 ^ 32"
  by (simp add: uint_def zmod_int)

lemma int_uint_minus: "int (uint_minus a b) = (int a - int b) mod 2 ^ 32"
proof -
  have "b mod 2 ^ 32 \<le> (2 ^ 32 :: nat)" by simp
  then have "int (a + (2 ^ 32 - b mod 2 ^ 32)) = int a + (2 ^ 32 - int b mod 2 ^ 32)"
    by (simp add: zmod_int of_nat_diff)
  then have "int (uint_minus a b) = (int a + (2 ^ 32 - int b mod 2 ^ 32)) mod 2 ^ 32"
    by (simp add: uint_minus_def int_uint add_diff_eq)
  also have "\<dots> = ((int a - int b) + 2 ^ 32) mod 2 ^ 32"
    by (simp add: mod_simps algebra_simps)
  also have "\<dots> = (int a - int b) mod 2 ^ 32"
    by (rule mod_add_self2)
  finally show ?thesis .
qed

lemma uint_minus_self: "uint_minus a a = 0"
proof -
  have "int (uint_minus a a) = 0" by (simp add: int_uint_minus)
  then show ?thesis by simp
qed

lemma uint_minus_zero: "uint_minus a 0 = uint a"
  by (simp add: uint_minus_def uint_def)

lemma uint_minus_telescope:
  "uint_minus (uint (uint_minus x y + z)) x = uint_minus z y"
proof -
  have "int (uint_minus (uint (uint_minus x y + z)) x) =
          (((int x - int y) mod 2 ^ 32 + int z) mod 2 ^ 32 - int x) mod 2 ^ 32"
    by (simp add: int_uint_minus int_uint)
  also have "\<dots> = (int z - int y) mod 2 ^ 32"
    by (simp add: mod_simps algebra_simps)
  finally have "int (uint_minus (uint (uint_minus x y + z)) x) = int (uint_minus z y)"
    by (simp add: int_uint_minus)
  then show ?thesis by simp
qed

section \<open>Properties of the local index\<close>

lemma to_local_bounds [simp]:
  "local_nodes_begin (snd (to_local gid s)) = local_nodes_begin s"
  "local_nodes_end (snd (to_local gid s)) = local_nodes_end s"
  by (simp_all add: to_local_def Let_def split: option.splits)

lemma remote_to_local [simp]: "remote (snd (to_local gid s)) g = remote s g"
  by (simp add: remote_def)

lemma remote_update [simp]:
  "remote (s\<lparr>global_to_local := m\<rparr>) g = remote s g"
  "remote (s\<lparr>ghost_counter := c\<rparr>) g = remote s g"
  by (simp_all add: remote_def)

lemma to_local_owned:
  "\<not> remote s gid \<Longrightarrow> to_local gid s = (gid - local_nodes_begin s, s)"
  by (simp add: to_local_def remote_def)

lemma to_local_hit:
  "remote s gid \<Longrightarrow> global_to_local s gid = Some lid \<Longrightarrow> to_local gid s = (lid, s)"
  by (auto simp add: to_local_def remote_def)

lemma to_local_miss:
  "remote s gid \<Longrightarrow> global_to_local s gid = None \<Longrightarrow>
     to_local gid s =
       (uint (uint_minus (local_nodes_end s) (local_nodes_begin s) + ghost_counter s),
        s\<lparr>global_to_local := (global_to_local s)
             (gid \<mapsto> uint (uint_minus (local_nodes_end s) (local_nodes_begin s) + ghost_counter s)),
          ghost_counter := uint (ghost_counter s + 1)\<rparr>)"
  by (auto simp add: to_local_def remote_def Let_def)

lemma fresh_lid:
  assumes "local_nodes_begin s \<le> local_nodes_end s"
    and "local_nodes_end s - local_nodes_begin s + ghost_counter s + 1 < 2 ^ 32"
  shows "uint (uint_minus (local_nodes_end s) (local_nodes_begin s) + ghost_counter s) =
           local_nodes_end s - local_nodes_begin s + ghost_counter s"
    and "uint (ghost_counter s + 1) = ghost_counter s + 1"
proof -
  have "uint_minus (local_nodes_end s) (local_nodes_begin s) =
          local_nodes_end s - local_nodes_begin s"
    using assms by (intro uint_minus_id) simp_all
  then show "uint (uint_minus (local_nodes_end s) (local_nodes_begin s) + ghost_counter s) =
           local_nodes_end s - local_nodes_begin s + ghost_counter s"
    using assms by (simp add: uint_id)
  show "uint (ghost_counter s + 1) = ghost_counter s + 1"
    using assms by (intro uint_id) simp
qed

lemma to_local_miss_fresh:
  assumes "remote s gid" and "global_to_local s gid = None"
    and "local_nodes_begin s \<le> local_nodes_end s"
    and "local_nodes_end s - local_nodes_begin s + ghost_counter s + 1 < 2 ^ 32"
  shows "to_local gid s =
       (local_nodes_end s - local_nodes_begin s + ghost_counter s,
        s\<lparr>global_to_local := (global_to_local s)
             (gid \<mapsto> local_nodes_end s - local_nodes_begin s + ghost_counter s),
          ghost_counter := ghost_counter s + 1\<rparr>)"
  using to_local_miss [OF assms(1,2)] fresh_lid [OF assms(3,4)] by simp

lemma nodes_3d_to_local:
  "global_idx_3d fuel nd block i j k = Some (Inr gid) \<Longrightarrow>
     nodes_3d fuel nd block i j k = Some (Inr (to_local gid nd))"
  by (simp add: nodes_3d_def bindR_def to_local_def Let_def split: option.splits)

lemma nodes_2d_to_local:
  "global_idx_2d fuel nd block i j = Some (Inr gid) \<Longrightarrow>
     nodes_2d fuel nd block i j = Some (Inr (to_local gid nd))"
  by (simp add: nodes_2d_def bindR_def to_local_def Let_def split: option.splits)



text \<open>
  Claim C4. A global index inside the local range \<open>[local_nodes_begin, local_nodes_end)\<close>
  is returned relative to \<open>local_nodes_begin\<close> and the state is unchanged. Outside the
  range the ghost map is consulted: a stored index is returned and the state is
  unchanged; otherwise the index \<open>(local_nodes_end - local_nodes_begin) + ghost_counter\<close>,
  computed in \<^verbatim>\<open>Uint\<close> arithmetic, is stored and returned and \<open>ghost_counter\<close> is
  incremented by one, again in \<^verbatim>\<open>Uint\<close> arithmetic. When
  \<open>local_nodes_begin \<le> local_nodes_end\<close> and the new number of local and ghost nodes is
  below \<open>2 ^ 32\<close>, these are the difference, the sum and the successor of the natural
  numbers. \<^verbatim>\<open>operator()\<close> of \<^verbatim>\<open>NodeIndices3D\<close> and of \<^verbatim>\<open>NodeIndices2D\<close> returns what
  \<^verbatim>\<open>to_local\<close> returns for the global index of the node.
\<close>

theorem to_local_cases:
  "(local_nodes_begin s \<le> gid \<and> gid < local_nodes_end s \<longrightarrow>
      to_local gid s = (gid - local_nodes_begin s, s)) \<and>
   (\<not> (local_nodes_begin s \<le> gid \<and> gid < local_nodes_end s) \<longrightarrow>
      (\<forall>lid. global_to_local s gid = Some lid \<longrightarrow> to_local gid s = (lid, s)) \<and>
      (global_to_local s gid = None \<longrightarrow>
         fst (to_local gid s) =
           uint (uint_minus (local_nodes_end s) (local_nodes_begin s) + ghost_counter s) \<and>
         global_to_local (snd (to_local gid s)) =
           (global_to_local s)(gid \<mapsto>
              uint (uint_minus (local_nodes_end s) (local_nodes_begin s) + ghost_counter s)) \<and>
         ghost_counter (snd (to_local gid s)) = uint (ghost_counter s + 1) \<and>
         local_nodes_begin (snd (to_local gid s)) = local_nodes_begin s \<and>
         local_nodes_end (snd (to_local gid s)) = local_nodes_end s \<and>
         (local_nodes_begin s \<le> local_nodes_end s \<and>
          local_nodes_end s - local_nodes_begin s + ghost_counter s + 1 < 2 ^ 32 \<longrightarrow>
            fst (to_local gid s) =
              (local_nodes_end s - local_nodes_begin s) + ghost_counter s \<and>
            ghost_counter (snd (to_local gid s)) = ghost_counter s + 1))) \<and>
   (\<forall>fuel nd block i j k g. global_idx_3d fuel nd block i j k = Some (Inr g) \<longrightarrow>
      nodes_3d fuel nd block i j k = Some (Inr (to_local g nd))) \<and>
   (\<forall>fuel nd block i j g. global_idx_2d fuel nd block i j = Some (Inr g) \<longrightarrow>
      nodes_2d fuel nd block i j = Some (Inr (to_local g nd)))"
proof (intro conjI impI allI)
  show "to_local gid s = (gid - local_nodes_begin s, s)"
    if "local_nodes_begin s \<le> gid \<and> gid < local_nodes_end s"
    using that by (simp add: to_local_owned remote_def)
next
  fix lid
  assume "\<not> (local_nodes_begin s \<le> gid \<and> gid < local_nodes_end s)"
    and "global_to_local s gid = Some lid"
  then show "to_local gid s = (lid, s)" by (simp add: to_local_hit remote_def)
next
  assume r: "\<not> (local_nodes_begin s \<le> gid \<and> gid < local_nodes_end s)"
    and n: "global_to_local s gid = None"
  from r have r': "remote s gid" by (simp add: remote_def)
  show "fst (to_local gid s) =
      uint (uint_minus (local_nodes_end s) (local_nodes_begin s) + ghost_counter s)"
    by (simp add: to_local_miss [OF r' n])
  show "global_to_local (snd (to_local gid s)) =
           (global_to_local s)(gid \<mapsto>
              uint (uint_minus (local_nodes_end s) (local_nodes_begin s) + ghost_counter s))"
    by (simp add: to_local_miss [OF r' n])
  show "ghost_counter (snd (to_local gid s)) = uint (ghost_counter s + 1)"
    by (simp add: to_local_miss [OF r' n])
  show "local_nodes_begin (snd (to_local gid s)) = local_nodes_begin s" by simp
  show "local_nodes_end (snd (to_local gid s)) = local_nodes_end s" by simp
  assume f: "local_nodes_begin s \<le> local_nodes_end s \<and>
          local_nodes_end s - local_nodes_begin s + ghost_counter s + 1 < 2 ^ 32"
  then have f1: "local_nodes_begin s \<le> local_nodes_end s"
    and f2: "local_nodes_end s - local_nodes_begin s + ghost_counter s + 1 < 2 ^ 32"
    by blast+
  have m: "to_local gid s =
       (local_nodes_end s - local_nodes_begin s + ghost_counter s,
        s\<lparr>global_to_local := (global_to_local s)
             (gid \<mapsto> local_nodes_end s - local_nodes_begin s + ghost_counter s),
          ghost_counter := ghost_counter s + 1\<rparr>)"
    by (rule to_local_miss_fresh [OF r' n f1 f2])
  show "fst (to_local gid s) = (local_nodes_end s - local_nodes_begin s) + ghost_counter s"
    by (simp add: m)
  show "ghost_counter (snd (to_local gid s)) = ghost_counter s + 1"
    by (simp add: m)
next
  fix fuel nd block i j k g
  assume "global_idx_3d fuel (nd :: 'b NodeIndices_scheme) block i j k = Some (Inr g)"
  then show "nodes_3d fuel nd block i j k = Some (Inr (to_local g nd))"
    by (rule nodes_3d_to_local)
next
  fix fuel nd block i j g
  assume "global_idx_2d fuel (nd :: 'c NodeIndices_scheme) block i j = Some (Inr g)"
  then show "nodes_2d fuel nd block i j = Some (Inr (to_local g nd))"
    by (rule nodes_2d_to_local)
qed

theorem to_local_cases_witness:
  "to_local 3 example_local_index = (1, example_local_index) \<and>
   fst (to_local 7 example_local_index) = 3 \<and>
   ghost_counter (snd (to_local 7 example_local_index)) = 1 \<and>
   global_to_local (snd (to_local 7 example_local_index)) 7 = Some 3 \<and>
   to_local 7 (snd (to_local 7 example_local_index)) = (3, snd (to_local 7 example_local_index)) \<and>
   fst (to_local 7 reversed_local_index) = 0"
proof -
  let ?s = example_local_index
  let ?t = "snd (to_local 7 ?s)"
  let ?r = reversed_local_index
  have s: "local_nodes_begin ?s = 2" "local_nodes_end ?s = 5" "ghost_counter ?s = 0"
    "global_to_local ?s = Map.empty"
    by (simp_all add: example_local_index_def)
  have r: "local_nodes_begin ?r = 5" "local_nodes_end ?r = 2" "ghost_counter ?r = 3"
    "global_to_local ?r = Map.empty"
    by (simp_all add: reversed_local_index_def)
  have a: "to_local 3 ?s = (1, ?s)"
    using to_local_cases [of ?s 3, THEN conjunct1] by (simp add: s)
  have b: "fst (to_local 7 ?s) = 3 \<and> ghost_counter ?t = 1 \<and> global_to_local ?t 7 = Some 3"
    using to_local_cases [of ?s 7, THEN conjunct2, THEN conjunct1] by (simp add: s)
  have c: "local_nodes_begin ?t = 2 \<and> local_nodes_end ?t = 5"
    using to_local_cases [of ?s 7, THEN conjunct2, THEN conjunct1] by (simp add: s)
  have d: "to_local 7 ?t = (3, ?t)"
    using to_local_cases [of ?t 7, THEN conjunct2, THEN conjunct1] b c by simp
  have e: "fst (to_local 7 ?r) = 0"
    using to_local_cases [of ?r 7, THEN conjunct2, THEN conjunct1]
    by (simp add: r uint_def uint_minus_def)
  from a b d e show ?thesis by simp
qed
section \<open>Constructors, node counts and rank independence\<close>

section \<open>The error monad\<close>

lemma bindE_Inr [simp]: "bindE (Inr x) f = f x"
  by (simp add: bindE_def)

lemma bindE_Inl [simp]: "bindE (Inl e) f = Inl e"
  by (simp add: bindE_def)

lemma bindE_eq_Inr:
  "bindE m f = Inr y \<longleftrightarrow> (\<exists>x. m = Inr x \<and> f x = Inr y)"
  by (cases m) simp_all

lemma vec_at_Inr: "vec_at xs i = Inr x \<longleftrightarrow> i < length xs \<and> x = xs ! i"
  by (auto simp: vec_at_def)

lemma vec_at_in_range [simp]: "i < length xs \<Longrightarrow> vec_at xs i = Inr (xs ! i)"
  by (simp add: vec_at_def)

lemma vec_back_Inr: "vec_back xs = Inr x \<longleftrightarrow> xs \<noteq> [] \<and> x = last xs"
  by (auto simp: vec_back_def)

lemma vec_back_nonempty [simp]: "xs \<noteq> [] \<Longrightarrow> vec_back xs = Inr (last xs)"
  by (simp add: vec_back_def)

lemma cf3_assert_True [simp]: "c \<Longrightarrow> cf3_assert c k = k"
  by (simp add: cf3_assert_def)

lemma cf3_assert_False [simp]: "\<not> c \<Longrightarrow> cf3_assert c k = Inl FailedAssertion"
  by (simp add: cf3_assert_def)

lemma liftR_Inr [simp]: "liftR (Inr x) f = f x"
  by (simp add: liftR_def)

lemma liftR_Inl [simp]: "liftR (Inl e) f = Some (Inl e)"
  by (simp add: liftR_def)

lemma bindR_simps [simp]:
  "bindR None f = None"
  "bindR (Some (Inl e)) f = Some (Inl e)"
  "bindR (Some (Inr x)) f = f x"
  by (simp_all add: bindR_def)

lemma foldE_append: "foldE f (xs @ ys) s = bindE (foldE f xs s) (foldE f ys)"
proof (induction xs arbitrary: s)
  case Nil
  show ?case by simp
next
  case (Cons x xs)
  show ?case
  proof (cases "f x s")
    case (Inl e)
    then show ?thesis by simp
  next
    case (Inr s')
    then show ?thesis by (simp add: Cons.IH)
  qed
qed

lemma foldE_upt_Suc:
  "foldE f [0..<Suc n] s = bindE (foldE f [0..<n] s) (f n)"
proof -
  have "foldE f [n] = f n"
  proof
    fix t show "foldE f [n] t = f n t" by (cases "f n t") simp_all
  qed
  then show ?thesis by (simp add: foldE_append)
qed

section \<open>The constructors\<close>

text \<open>
  A loop that appends one row and one prefix sum per block, as both constructors do.
\<close>

lemma prefix_loop:
  assumes step: "\<And>b bnd fns bnd' fns'. step b (bnd, fns) = Inr (bnd', fns') \<Longrightarrow>
      \<exists>row m. R b row m \<and> fns \<noteq> [] \<and> bnd' = bnd @ [row] \<and> fns' = fns @ [uint (last fns + m)]"
    and loop: "foldE step [0..<n] ([], [0::nat]) = Inr (bnd, fns)"
  shows "length bnd = n \<and> length fns = n + 1 \<and> fns ! 0 = 0 \<and>
     (\<forall>b<n. \<exists>m. R b (bnd ! b) m \<and> fns ! (b + 1) = uint (fns ! b + m))"
  using loop
proof (induction n arbitrary: bnd fns)
  case 0
  then show ?case by auto
next
  case (Suc n)
  from Suc.prems [unfolded foldE_upt_Suc] obtain acc0 where
    l: "foldE step [0..<n] ([], [0]) = Inr acc0" and s: "step n acc0 = Inr (bnd, fns)"
    unfolding bindE_eq_Inr by blast
  obtain bnd0 fns0 where acc0: "acc0 = (bnd0, fns0)" by (cases acc0)
  from Suc.IH [OF l [unfolded acc0]] have
    inv: "length bnd0 = n" "length fns0 = n + 1" "fns0 ! 0 = 0"
      "\<forall>b<n. \<exists>m. R b (bnd0 ! b) m \<and> fns0 ! (b + 1) = uint (fns0 ! b + m)"
    by simp_all
  from step [OF s [unfolded acc0]] obtain row m where
    st: "R n row m" "bnd = bnd0 @ [row]" "fns = fns0 @ [uint (last fns0 + m)]"
    by auto
  have "fns0 \<noteq> []" using inv(2) by auto
  then have lastf: "last fns0 = fns0 ! n" using inv(2) by (simp add: last_conv_nth)
  have "\<forall>b<Suc n. \<exists>m. R b (bnd ! b) m \<and> fns ! (b + 1) = uint (fns ! b + m)"
  proof (intro allI impI)
    fix b assume "b < Suc n"
    show "\<exists>m. R b (bnd ! b) m \<and> fns ! (b + 1) = uint (fns ! b + m)"
    proof (cases "b < n")
      case True
      with inv st show ?thesis by (simp add: nth_append)
    next
      case False
      with \<open>b < Suc n\<close> have "b = n" by simp
      with inv st lastf show ?thesis by (auto simp add: nth_append)
    qed
  qed
  with inv st show ?case by (simp add: nth_append)
qed

text \<open>
  Prefix sums in \<^verbatim>\<open>Uint\<close> arithmetic are the sums of the naturals, reduced; they are
  the sums themselves when the last one is in range.
\<close>

lemma prefix_sums_uint:
  assumes "(fns :: nat list) ! 0 = 0" and "\<forall>b<n. fns ! (b + 1) = uint (fns ! b + c b)"
    and "b \<le> n"
  shows "fns ! b = uint (\<Sum>b'<b. c b')"
  using assms(3)
proof (induction b)
  case 0
  with assms(1) show ?case by (simp add: uint_def)
next
  case (Suc b)
  then have "fns ! b = uint (\<Sum>b'<b. c b')" "b < n" by simp_all
  with assms(2) show ?case by (simp add: uint_add)
qed

lemma sum_prefix_le:
  "(b :: nat) \<le> n \<Longrightarrow> (\<Sum>b'<b. (c b' :: nat)) \<le> (\<Sum>b'<n. c b')"
proof -
  assume "b \<le> n"
  then have "{..<b} \<subseteq> {..<n}" by auto
  then show ?thesis by (intro sum_mono2) simp_all
qed

lemma prefix_sums_exact:
  assumes "(fns :: nat list) ! 0 = 0" and "\<forall>b<n. fns ! (b + 1) = uint (fns ! b + c b)"
    and "(\<Sum>b'<n. c b') < 2 ^ 32" and "b \<le> n"
  shows "fns ! b = (\<Sum>b'<b. c b')"
proof -
  have "(\<Sum>b'<b. c b') \<le> (\<Sum>b'<n. c b')" using assms(4) by (rule sum_prefix_le)
  with assms(3) have "(\<Sum>b'<b. c b') < 2 ^ 32" by simp
  with prefix_sums_uint [OF assms(1,2,4)] show ?thesis by (simp add: uint_id)
qed

lemma prefix_sums_mono:
  assumes "\<forall>b<n. (fns :: nat list) ! b \<le> fns ! (b + 1)" and "a \<le> b" and "b \<le> n"
  shows "fns ! a \<le> fns ! b"
  using assms(2,3)
proof (induction b)
  case 0
  then show ?case by simp
next
  case (Suc b)
  show ?case
  proof (cases "a = Suc b")
    case True
    then show ?thesis by simp
  next
    case False
    with Suc.prems have "a \<le> b" "b \<le> n" "b < n" by simp_all
    with Suc.IH assms(1) have "fns ! a \<le> fns ! b" "fns ! b \<le> fns ! (b + 1)" by simp_all
    then show ?thesis by simp
  qed
qed

lemma prefix_sums_sum:
  assumes "(fns :: nat list) ! 0 = 0" and "\<forall>b<n. fns ! (b + 1) = fns ! b + c b" and "b \<le> n"
  shows "fns ! b = (\<Sum>b'<b. c b')"
  using assms(3)
proof (induction b)
  case 0
  with assms(1) show ?case by simp
next
  case (Suc b)
  then have "fns ! b = (\<Sum>b'<b. c b')" "b < n" by simp_all
  with assms(2) show ?case by simp
qed

lemma first_nodes_step_3d_Inr:
  assumes "first_nodes_step_3d fc bd block (bnd, fns) = Inr (bnd', fns')"
  shows "\<exists>row m. counted_3d fc bd block row m \<and> fns \<noteq> [] \<and>
           bnd' = bnd @ [row] \<and> fns' = fns @ [uint (last fns + m)]"
  using assms
  by (auto simp: first_nodes_step_3d_def counted_3d_def bindE_eq_Inr vec_at_Inr vec_back_Inr)


lemma first_nodes_loop_3d:
  assumes "foldE (first_nodes_step_3d fc bd) [0..<n] ([], [0]) = Inr (bnd, fns)"
  shows "length bnd = n \<and> length fns = n + 1 \<and> fns ! 0 = 0 \<and>
     (\<forall>b<n. \<exists>m. counted_3d fc bd b (bnd ! b) m \<and> fns ! (b + 1) = uint (fns ! b + m))"
  using first_nodes_step_3d_Inr assms by (rule prefix_loop)


text \<open>What a successful constructor has built.\<close>

lemma NodeIndices3D_Inr:
  assumes "NodeIndices3D fc bd rank np = Inr nd"
  shows "foldE (first_nodes_step_3d fc bd) [0..<length (block_subdivisions bd)] ([], [0])
           = Inr (bounded nd, block_first_nodes nd) \<and>
         nodes_dist_loop (block_first_nodes nd) (block_distribution bd) np = Inr (nodes_dist nd) \<and>
         m_face_connectivity nd = fc \<and> m_block_data nd = bd \<and>
         rank < length (nodes_dist nd) \<and> uint (rank + 1) < length (nodes_dist nd) \<and>
         local_nodes_begin nd = nodes_dist nd ! rank \<and>
         local_nodes_end nd = nodes_dist nd ! uint (rank + 1) \<and>
         ghost_counter nd = 0 \<and> global_to_local nd = Map.empty"
  using assms
  by (auto simp: NodeIndices3D_def Let_def bindE_eq_Inr vec_at_Inr split: prod.splits)

lemma NodeIndices2D_Inr:
  assumes "NodeIndices2D fc bd rank np = Inr nd"
  shows "foldE (first_nodes_step_2d fc bd) [0..<length (block_subdivisions bd)] ([], [0])
           = Inr (bounded nd, block_first_nodes nd) \<and>
         nodes_dist_loop (block_first_nodes nd) (block_distribution bd) np = Inr (nodes_dist nd) \<and>
         m_face_connectivity nd = fc \<and> m_block_data nd = bd \<and>
         rank < length (nodes_dist nd) \<and> uint (rank + 1) < length (nodes_dist nd) \<and>
         local_nodes_begin nd = nodes_dist nd ! rank \<and>
         local_nodes_end nd = nodes_dist nd ! uint (rank + 1) \<and>
         ghost_counter nd = 0 \<and> global_to_local nd = Map.empty"
  using assms
  by (auto simp: NodeIndices2D_def Let_def bindE_eq_Inr vec_at_Inr split: prod.splits)

section \<open>Independence of the rank\<close>

lemma global_idx_3d_body_cong:
  assumes "block_first_nodes nd = block_first_nodes nd'" and "bounded nd = bounded nd'"
    and "m_face_connectivity nd = m_face_connectivity nd'" and "m_block_data nd = m_block_data nd'"
  shows "global_idx_3d_body self nd = global_idx_3d_body self nd'"
  by (intro ext)
     (simp only: global_idx_3d_body_def checked_return_def bounded_at_def adjacent_block_def assms)

lemma global_idx_2d_body_cong:
  assumes "block_first_nodes nd = block_first_nodes nd'" and "bounded nd = bounded nd'"
    and "m_face_connectivity nd = m_face_connectivity nd'" and "m_block_data nd = m_block_data nd'"
  shows "global_idx_2d_body self nd = global_idx_2d_body self nd'"
  by (intro ext)
     (simp only: global_idx_2d_body_def checked_return_def bounded_at_def adjacent_block_def assms)

lemma global_idx_3d_cong:
  assumes "block_first_nodes nd = block_first_nodes nd'" and "bounded nd = bounded nd'"
    and "m_face_connectivity nd = m_face_connectivity nd'" and "m_block_data nd = m_block_data nd'"
  shows "global_idx_3d fuel nd = global_idx_3d fuel nd'"
proof (induction fuel)
  case 0
  show ?case by simp
next
  case (Suc fuel)
  then show ?case by (simp add: global_idx_3d_body_cong [OF assms])
qed

lemma global_idx_2d_cong:
  assumes "block_first_nodes nd = block_first_nodes nd'" and "bounded nd = bounded nd'"
    and "m_face_connectivity nd = m_face_connectivity nd'" and "m_block_data nd = m_block_data nd'"
  shows "global_idx_2d fuel nd = global_idx_2d fuel nd'"
proof (induction fuel)
  case 0
  show ?case by simp
next
  case (Suc fuel)
  then show ?case by (simp add: global_idx_2d_body_cong [OF assms])
qed

text \<open>
  Claim C9. The global index of a node does not depend on the rank the oracle was
  constructed for: two oracles constructed from the same face connectivity and block
  data for different ranks return the same result for every block and node index, in 3D
  and in 2D.
\<close>

theorem global_idx_rank_independent:
  "(NodeIndices3D fc bd rank1 np = Inr nd1 \<and> NodeIndices3D fc bd rank2 np = Inr nd2 \<longrightarrow>
      global_idx_3d fuel nd1 block i j k = global_idx_3d fuel nd2 block i j k) \<and>
   (NodeIndices2D fc bd rank1 np = Inr md1 \<and> NodeIndices2D fc bd rank2 np = Inr md2 \<longrightarrow>
      global_idx_2d fuel md1 block i j = global_idx_2d fuel md2 block i j)"
proof (intro conjI impI)
  assume "NodeIndices3D fc bd rank1 np = Inr nd1 \<and> NodeIndices3D fc bd rank2 np = Inr nd2"
  then have a: "NodeIndices3D fc bd rank1 np = Inr nd1" and b: "NodeIndices3D fc bd rank2 np = Inr nd2"
    by simp_all
  note A = NodeIndices3D_Inr [OF a] and B = NodeIndices3D_Inr [OF b]
  from A B have "(bounded nd1, block_first_nodes nd1) = (bounded nd2, block_first_nodes nd2)"
    by simp
  then have "block_first_nodes nd1 = block_first_nodes nd2" "bounded nd1 = bounded nd2" by simp_all
  moreover from A B have "m_face_connectivity nd1 = m_face_connectivity nd2"
    "m_block_data nd1 = m_block_data nd2" by simp_all
  ultimately have "global_idx_3d fuel nd1 = global_idx_3d fuel nd2"
    by (rule global_idx_3d_cong)
  then show "global_idx_3d fuel nd1 block i j k = global_idx_3d fuel nd2 block i j k" by simp
next
  assume "NodeIndices2D fc bd rank1 np = Inr md1 \<and> NodeIndices2D fc bd rank2 np = Inr md2"
  then have a: "NodeIndices2D fc bd rank1 np = Inr md1" and b: "NodeIndices2D fc bd rank2 np = Inr md2"
    by simp_all
  note A = NodeIndices2D_Inr [OF a] and B = NodeIndices2D_Inr [OF b]
  from A B have "(bounded md1, block_first_nodes md1) = (bounded md2, block_first_nodes md2)"
    by simp
  then have "block_first_nodes md1 = block_first_nodes md2" "bounded md1 = bounded md2" by simp_all
  moreover from A B have "m_face_connectivity md1 = m_face_connectivity md2"
    "m_block_data md1 = m_block_data md2" by simp_all
  ultimately have "global_idx_2d fuel md1 = global_idx_2d fuel md2"
    by (rule global_idx_2d_cong)
  then show "global_idx_2d fuel md1 block i j = global_idx_2d fuel md2 block i j" by simp
qed

section \<open>Node counts\<close>

lemma nb_nodes_3d_product:
  assumes "bounded_row_3d fc b = Inr row" and "nb_nodes_3d segs row = Inr m"
  shows "length row = 7 \<and> 3 \<le> length segs \<and>
     m = uint ((segs ! 0 + of_bool (row ! 0)) * (segs ! 1 + of_bool (row ! 1)) *
               (segs ! 2 + of_bool (row ! 2)))"
proof -
  from assms(1) obtain bx "by" bz where
    row: "row = [bx, by, bz, bx \<and> by, bx \<and> bz, by \<and> bz, bx \<and> by \<and> bz]"
    by (auto simp: bounded_row_3d_def bindE_eq_Inr Let_def)
  from assms(2) have len: "3 \<le> length segs"
    by (auto simp: nb_nodes_3d_def bindE_eq_Inr vec_at_Inr XX_def YY_def ZZ_def)
  from len have "0 < length segs" "1 < length segs" "2 < length segs" by auto
  with assms(2) have
    "m = uint (segs ! 0 * segs ! 1 * segs ! 2 + of_bool bx * segs ! 1 * segs ! 2
       + of_bool by * segs ! 0 * segs ! 2 + of_bool bz * segs ! 0 * segs ! 1
       + of_bool (bx \<and> by) * segs ! 2 + of_bool (bx \<and> bz) * segs ! 1
       + of_bool (by \<and> bz) * segs ! 0 + of_bool (bx \<and> by \<and> bz))"
    by (simp add: nb_nodes_3d_def row XX_def YY_def ZZ_def XY_def XZ_def YZ_def XYZ_def)
  moreover have "segs ! 0 * segs ! 1 * segs ! 2 + of_bool bx * segs ! 1 * segs ! 2
       + of_bool by * segs ! 0 * segs ! 2 + of_bool bz * segs ! 0 * segs ! 1
       + of_bool (bx \<and> by) * segs ! 2 + of_bool (bx \<and> bz) * segs ! 1
       + of_bool (by \<and> bz) * segs ! 0 + of_bool (bx \<and> by \<and> bz) =
       (segs ! 0 + of_bool bx) * (segs ! 1 + of_bool by) * (segs ! 2 + of_bool bz)"
    by (cases bx; cases "by"; cases bz) (simp_all add: algebra_simps)
  ultimately have
    "m = uint ((segs ! 0 + of_bool bx) * (segs ! 1 + of_bool by) * (segs ! 2 + of_bool bz))"
    by (simp only:)
  with row len show ?thesis by simp
qed


lemma bounded_row_3d_faces:
  assumes "bounded_row_3d fc b = Inr row"
  shows "\<exists>rx ry rz. fc b KSI_POS = Some rx \<and> fc b ETA_POS = Some ry \<and> fc b ZTA_POS = Some rz \<and>
     row ! 0 = (dimensionality rx = DIM_2D) \<and> row ! 1 = (dimensionality ry = DIM_2D) \<and>
     row ! 2 = (dimensionality rz = DIM_2D)"
  using assms
  by (auto simp: bounded_row_3d_def bindE_eq_Inr Let_def adjacent_element_def split: option.splits)

lemma bounded_row_2d_faces:
  assumes "bounded_row_2d fc b = Inr row"
  shows "\<exists>rx ry. fc b XPOS = Some rx \<and> fc b YPOS = Some ry \<and>
     row ! 0 = (dimensionality rx = DIM_1D) \<and> row ! 1 = (dimensionality ry = DIM_1D)"
  using assms
  by (auto simp: bounded_row_2d_def bindE_eq_Inr Let_def adjacent_element_def split: option.splits)

text \<open>The nodes distribution.\<close>

lemma nodes_dist_step_Inr:
  assumes "nodes_dist_step fns d p acc = Inr acc'"
  shows "acc \<noteq> [] \<and> p + 1 < length d \<and> d ! (p + 1) < length fns \<and> d ! p < length fns \<and>
         acc' = acc @ [uint_minus (uint (last acc + fns ! (d ! (p + 1)))) (fns ! (d ! p))]"
  using assms by (auto simp: nodes_dist_step_def bindE_eq_Inr vec_at_Inr vec_back_Inr)

lemma nodes_dist_loop_Inr:
  assumes "foldE (nodes_dist_step fns d) [0..<n] [0] = Inr acc"
  shows "length acc = n + 1 \<and> acc ! 0 = 0 \<and>
     (\<forall>p<n. p + 1 < length d \<and> d ! (p + 1) < length fns \<and> d ! p < length fns \<and>
        acc ! (p + 1) = uint_minus (uint (acc ! p + fns ! (d ! (p + 1)))) (fns ! (d ! p)))"
  using assms
proof (induction n arbitrary: acc)
  case 0
  then show ?case by auto
next
  case (Suc n)
  from Suc.prems [unfolded foldE_upt_Suc] obtain acc0 where
    l: "foldE (nodes_dist_step fns d) [0..<n] [0] = Inr acc0"
    and s: "nodes_dist_step fns d n acc0 = Inr acc"
    unfolding bindE_eq_Inr by blast
  note inv = Suc.IH [OF l] and st = nodes_dist_step_Inr [OF s]
  from inv have "acc0 \<noteq> []" by auto
  with inv have lastf: "last acc0 = acc0 ! n" by (simp add: last_conv_nth)
  have "\<forall>p<Suc n. p + 1 < length d \<and> d ! (p + 1) < length fns \<and> d ! p < length fns \<and>
        acc ! (p + 1) = uint_minus (uint (acc ! p + fns ! (d ! (p + 1)))) (fns ! (d ! p))"
  proof (intro allI impI)
    fix p assume "p < Suc n"
    show "p + 1 < length d \<and> d ! (p + 1) < length fns \<and> d ! p < length fns \<and>
        acc ! (p + 1) = uint_minus (uint (acc ! p + fns ! (d ! (p + 1)))) (fns ! (d ! p))"
    proof (cases "p < n")
      case True
      with inv st show ?thesis by (simp add: nth_append)
    next
      case False
      with \<open>p < Suc n\<close> have "p = n" by simp
      with inv st lastf show ?thesis by (simp add: nth_append)
    qed
  qed
  with inv st show ?case by (simp add: nth_append)
qed

text \<open>
  The differences telescope in \<^verbatim>\<open>Uint\<close> arithmetic, whether or not the distribution
  increases.
\<close>

lemma nodes_dist_telescope:
  assumes loop: "foldE (nodes_dist_step fns d) [0..<n] [0] = Inr acc"
    and "p \<le> n"
  shows "acc ! p = uint_minus (fns ! (d ! p)) (fns ! (d ! 0))"
  using \<open>p \<le> n\<close>
proof (induction p)
  case 0
  with nodes_dist_loop_Inr [OF loop] show ?case by (simp add: uint_minus_self)
next
  case (Suc p)
  then have p: "p < n" and ih: "acc ! p = uint_minus (fns ! (d ! p)) (fns ! (d ! 0))"
    by simp_all
  from nodes_dist_loop_Inr [OF loop] p have
    "acc ! (p + 1) = uint_minus (uint (acc ! p + fns ! (d ! (p + 1)))) (fns ! (d ! p))"
    by simp
  then show ?case unfolding ih by (simp add: uint_minus_telescope)
qed

lemma create_blocks_axis_Inr:
  assumes "create_blocks_axis dm fc subdiv_row b i (block, stride, nb_pts) = Inr acc'"
  shows "\<exists>r. i < dm \<and> i < length subdiv_row \<and> fc b (positive_faces dm ! i) = Some r \<and>
     acc' = (block\<lparr>strides := (strides block)[i := stride],
                   bounded_pos := (bounded_pos block)[i := (dimensionality r \<noteq> dm)],
                   nb_points := (nb_points block)
                      [i := uint (subdiv_row ! i + (if dimensionality r \<noteq> dm then 1 else 0))],
                   segments := (segments block)[i := subdiv_row ! i],
                   nb_elems := uint (nb_elems block * subdiv_row ! i),
                   neighbors := (neighbors block)
                      [i := (if dimensionality r \<noteq> dm then None else Some (element_idx r))]\<rparr>,
             uint (stride * uint (subdiv_row ! i + (if dimensionality r \<noteq> dm then 1 else 0))),
             uint (nb_pts * uint (subdiv_row ! i + (if dimensionality r \<noteq> dm then 1 else 0))))"
  using assms
  by (auto simp: create_blocks_axis_def bindE_eq_Inr vec_at_Inr adjacent_element_def Let_def
           split: option.splits if_splits)

lemma axis_loop:
  assumes "foldE (create_blocks_axis dm fc subdiv_row b) [0..<m] (block0, 1, 1) = Inr acc"
    and "m \<le> length (nb_points block0)" and "m \<le> length (bounded_pos block0)"
    and "m \<le> length (segments block0)"
  shows "axis_inv dm fc subdiv_row b block0 m acc"
  using assms
proof (induction m arbitrary: acc)
  case 0
  then show ?case by (auto simp: axis_inv_def uint_def)
next
  case (Suc m)
  from Suc.prems(1) [unfolded foldE_upt_Suc] obtain acc0 where
    l: "foldE (create_blocks_axis dm fc subdiv_row b) [0..<m] (block0, 1, 1) = Inr acc0"
    and s: "create_blocks_axis dm fc subdiv_row b m acc0 = Inr acc"
    unfolding bindE_eq_Inr by blast
  obtain block stride nb_pts where acc0: "acc0 = (block, stride, nb_pts)" by (cases acc0)
  from Suc.prems have "m \<le> length (nb_points block0)" "m \<le> length (bounded_pos block0)"
    "m \<le> length (segments block0)" by simp_all
  from Suc.IH [OF l this] acc0 have
    inv: "length (nb_points block) = length (nb_points block0)"
      "length (bounded_pos block) = length (bounded_pos block0)"
      "length (segments block) = length (segments block0)"
      "start_index block = start_index block0"
      "nb_pts = uint (\<Prod>d<m. nb_points block ! d)"
      "\<forall>d<m. axis_done dm fc subdiv_row b block d"
    by (simp_all add: axis_inv_def)
  let ?pts = "\<lambda>r. uint (subdiv_row ! m + (if dimensionality r \<noteq> dm then 1 else 0))"
  from create_blocks_axis_Inr [OF s [unfolded acc0]] obtain r where
    st: "m < dm" "m < length subdiv_row" "fc b (positive_faces dm ! m) = Some r"
    and acc: "acc = (block\<lparr>strides := (strides block)[m := stride],
                   bounded_pos := (bounded_pos block)[m := (dimensionality r \<noteq> dm)],
                   nb_points := (nb_points block)[m := ?pts r],
                   segments := (segments block)[m := subdiv_row ! m],
                   nb_elems := uint (nb_elems block * subdiv_row ! m),
                   neighbors := (neighbors block)
                      [m := (if dimensionality r \<noteq> dm then None else Some (element_idx r))]\<rparr>,
             uint (stride * ?pts r), uint (nb_pts * ?pts r))"
    by blast
  let ?block' = "fst acc"
  have lens: "m < length (nb_points block)" "m < length (bounded_pos block)"
    "m < length (segments block)"
    using Suc.prems inv by simp_all
  have old: "\<And>d. d < m \<Longrightarrow> axis_done dm fc subdiv_row b ?block' d"
    using inv(6) by (simp add: acc axis_done_def)
  have new: "axis_done dm fc subdiv_row b ?block' m"
    using st lens by (simp add: acc axis_done_def)
  have all: "\<forall>d<Suc m. axis_done dm fc subdiv_row b ?block' d"
    using old new by (auto simp: less_Suc_eq)
  have prod: "(\<Prod>d<m. nb_points ?block' ! d) = (\<Prod>d<m. nb_points block ! d)"
    by (rule prod.cong) (simp_all add: acc)
  have "uint (nb_pts * ?pts r) = uint ((\<Prod>d<m. nb_points block ! d) * ?pts r)"
    unfolding inv(5) by (rule uint_mult)
  also have "\<dots> = uint (\<Prod>d<Suc m. nb_points ?block' ! d)"
    using prod lens by (simp add: acc mult.commute)
  finally have "uint (nb_pts * ?pts r) = uint (\<Prod>d<Suc m. nb_points ?block' ! d)" .
  with all inv show ?case
    by (simp add: axis_inv_def acc)
qed

lemma create_blocks_step_Inr:
  assumes "create_blocks_step dm blocks subdivs fc b (bl, pm, block_start) = Inr acc'"
  shows "\<exists>block stride nb_pts pm'. b < length bl \<and> b < length subdivs \<and>
     foldE (create_blocks_axis dm fc (subdivs ! b) b) [0..<dm]
        ((bl ! b)\<lparr>start_index := block_start, nb_elems := 1\<rparr>, 1, 1) = Inr (block, stride, nb_pts) \<and>
     acc' = (bl[b := block], pm', uint (block_start + nb_pts))"
  using assms
  by (auto simp: create_blocks_step_def bindE_eq_Inr vec_at_Inr split: prod.splits)

lemma blocks_loop:
  assumes "foldE (create_blocks_step dm blocks subdivs fc) [0..<m]
             (replicate n (new_Block dm), pm0, 0) = Inr acc"
    and "m \<le> n"
  shows "blocks_inv dm fc subdivs n m acc"
  using assms
proof (induction m arbitrary: acc)
  case 0
  then show ?case by (auto simp: blocks_inv_def uint_def)
next
  case (Suc m)
  from Suc.prems(1) [unfolded foldE_upt_Suc] obtain acc0 where
    l: "foldE (create_blocks_step dm blocks subdivs fc) [0..<m]
          (replicate n (new_Block dm), pm0, 0) = Inr acc0"
    and s: "create_blocks_step dm blocks subdivs fc m acc0 = Inr acc"
    unfolding bindE_eq_Inr by blast
  obtain bl pm block_start where acc0: "acc0 = (bl, pm, block_start)" by (cases acc0)
  from Suc.prems have mn: "m < n" by simp
  from Suc.IH [OF l] mn acc0 have
    inv: "length bl = n" "\<forall>b. m \<le> b \<and> b < n \<longrightarrow> bl ! b = new_Block dm"
      "block_start = uint (\<Sum>b<m. owned_points dm (bl ! b))"
      "\<forall>b<m. block_done dm fc subdivs bl b"
    by (simp_all add: blocks_inv_def)
  from create_blocks_step_Inr [OF s [unfolded acc0]] obtain block stride nb_pts pm' where
    st: "m < length subdivs"
      "foldE (create_blocks_axis dm fc (subdivs ! m) m) [0..<dm]
        ((bl ! m)\<lparr>start_index := block_start, nb_elems := 1\<rparr>, 1, 1) = Inr (block, stride, nb_pts)"
    and acc: "acc = (bl[m := block], pm', uint (block_start + nb_pts))"
    by blast
  have blm: "bl ! m = new_Block dm" using inv(2) mn by simp
  have "axis_inv dm fc (subdivs ! m) m ((bl ! m)\<lparr>start_index := block_start, nb_elems := 1\<rparr>) dm
          (block, stride, nb_pts)"
    by (rule axis_loop [OF st(2)]) (simp_all add: blm new_Block_def)
  then have ax: "start_index block = block_start" "nb_pts = uint (owned_points dm block)"
    "\<forall>d<dm. axis_done dm fc (subdivs ! m) m block d"
    by (simp_all add: axis_inv_def owned_points_def)
  let ?bl' = "bl[m := block]"
  have same: "\<And>b. b < m \<Longrightarrow> ?bl' ! b = bl ! b" by simp
  have sums: "\<And>b. b \<le> m \<Longrightarrow> (\<Sum>b'<b. owned_points dm (?bl' ! b')) = (\<Sum>b'<b. owned_points dm (bl ! b'))"
    by (rule sum.cong) simp_all
  have old: "\<And>b. b < m \<Longrightarrow> block_done dm fc subdivs ?bl' b"
  proof -
    fix b assume b: "b < m"
    with inv(4) have "block_done dm fc subdivs bl b" by simp
    with b sums [of b] show "block_done dm fc subdivs ?bl' b"
      by (simp add: block_done_def)
  qed
  have new: "block_done dm fc subdivs ?bl' m"
    using ax inv(1,3) mn sums [of m] by (simp add: block_done_def)
  have all: "\<forall>b<Suc m. block_done dm fc subdivs ?bl' b"
    using old new by (auto simp: less_Suc_eq)
  have "uint (block_start + nb_pts) =
      uint ((\<Sum>b<m. owned_points dm (bl ! b)) + owned_points dm block)"
    unfolding ax(2) inv(3) by (simp add: uint_add)
  also have "\<dots> = uint (\<Sum>b<Suc m. owned_points dm (?bl' ! b))"
    using inv(1) mn sums [of m] by simp
  finally have start: "uint (block_start + nb_pts) = uint (\<Sum>b<Suc m. owned_points dm (?bl' ! b))" .
  have rest: "\<forall>b. Suc m \<le> b \<and> b < n \<longrightarrow> ?bl' ! b = new_Block dm"
    using inv(2) by simp
  from all start rest inv(1) show ?case by (simp add: blocks_inv_def acc)
qed

lemma create_blocks_Inr:
  assumes "create_blocks dm blocks subdivs fc impl = Inr impl'"
  shows "length (block_list impl') = length blocks \<and> ghost_counter impl' = 0 \<and>
     (\<forall>b<length blocks. block_done dm fc subdivs (block_list impl') b)"
proof -
  from assms obtain bl pm bs where
    l: "foldE (create_blocks_step dm blocks subdivs fc) [0..<length blocks]
          (replicate (length blocks) (new_Block dm), patch_map impl, 0) = Inr (bl, pm, bs)"
    and i: "impl' = impl\<lparr>ghost_counter := 0, block_list := bl, patch_map := pm\<rparr>"
    by (auto simp: create_blocks_def Let_def bindE_eq_Inr split: prod.splits)
  from blocks_loop [OF l] have "blocks_inv dm fc subdivs (length blocks) (length blocks) (bl, pm, bs)"
    by simp
  with i show ?thesis by (simp add: blocks_inv_def)
qed

lemmas example_defs = channel_connectivity_def channel_data_def l_shape_connectivity_def
  l_shape_data_def volume_ref_def surface_ref_def new_Implementation_def

lemmas face_defs = KSI_POS_def KSI_NEG_def ETA_POS_def ETA_NEG_def ZTA_POS_def ZTA_NEG_def
  XPOS_def XNEG_def YPOS_def YNEG_def

lemmas axis_defs = XX_def YY_def ZZ_def XY_def XZ_def YZ_def XYZ_def XY_2D_def
  DIM_1D_def DIM_2D_def DIM_3D_def

lemma Inr_projr: "\<not> isl x \<Longrightarrow> x = Inr (projr x)"
  by (cases x) simp_all

lemma prod_lessThan_3: "(\<Prod>d<(3::nat). f d) = (f 0 * f 1 * f 2 :: nat)"
proof -
  have "{..<(3::nat)} = {0, 1, 2}" by auto
  then show ?thesis by (simp add: mult.assoc)
qed


lemma owned_points_product:
  assumes "\<forall>d<dm. axis_done dm fc subdiv_row b block d"
  shows "uint (owned_points dm block) =
     uint (\<Prod>d<dm. (segments block ! d + of_bool (bounded_pos block ! d)))"
proof -
  have "owned_points dm block =
      (\<Prod>d<dm. uint (segments block ! d + of_bool (bounded_pos block ! d)))"
    unfolding owned_points_def
  proof (rule prod.cong)
    fix d assume "d \<in> {..<dm}"
    with assms have "axis_done dm fc subdiv_row b block d" by simp
    then show "nb_points block ! d = uint (segments block ! d + of_bool (bounded_pos block ! d))"
      by (auto simp: axis_done_def)
  qed simp
  then show ?thesis by (simp add: uint_prod)
qed

lemma uint_sum_cong:
  assumes "\<And>b. b < n \<Longrightarrow> uint (f b) = uint (g b)"
  shows "uint (\<Sum>b<(n::nat). f b) = uint (\<Sum>b<n. g b)"
proof -
  have "(\<Sum>b<n. uint (f b)) = (\<Sum>b<n. uint (g b))"
    by (rule sum.cong) (use assms in simp_all)
  then have "uint (\<Sum>b<n. uint (f b)) = uint (\<Sum>b<n. uint (g b))" by simp
  then show ?thesis by (simp only: uint_sum)
qed

text \<open>
  Claim C3. In \<^verbatim>\<open>create_blocks\<close> the number of points of a block along an axis is
  the number of segments, plus one when the face in the positive direction of the axis
  is on the boundary (its adjacent element is not a block); the start index of a block
  is the sum, over the blocks before it, of the product over the axes of segments plus
  bounded. In \<^verbatim>\<open>NodeIndices3D\<close> the first node of a block is the same prefix sum (the
  count of a block is the product over the axes of segments plus bounded), and for a
  block distribution that starts at 0 and ends at the number of blocks, the last entry
  of the nodes distribution is the total number of nodes. The sums and products are
  those of \<^verbatim>\<open>Uint\<close> arithmetic, that is, reduced modulo \<open>2 ^ 32\<close>; they are the sums and
  products of the natural numbers when every number of segments is below \<open>2 ^ 32 - 1\<close>
  and the total number of nodes is below \<open>2 ^ 32\<close>.
\<close>

theorem owned_node_counts:
  "(create_blocks dm blocks subdivs fc impl = Inr impl' \<longrightarrow>
      (\<forall>b<length blocks. \<forall>d<dm.
         (\<exists>r. fc b (positive_faces dm ! d) = Some r \<and>
              bounded_pos (block_list impl' ! b) ! d = (dimensionality r \<noteq> dm)) \<and>
         segments (block_list impl' ! b) ! d = subdivs ! b ! d \<and>
         nb_points (block_list impl' ! b) ! d =
           uint (subdivs ! b ! d + of_bool (bounded_pos (block_list impl' ! b) ! d))) \<and>
      (\<forall>b<length blocks.
         start_index (block_list impl' ! b) =
           uint (\<Sum>b'<b. \<Prod>d<dm. (segments (block_list impl' ! b') ! d
                                  + of_bool (bounded_pos (block_list impl' ! b') ! d)))) \<and>
      ((\<forall>b<length blocks. \<forall>d<dm. subdivs ! b ! d + 1 < 2 ^ 32) \<and>
       (\<Sum>b'<length blocks. \<Prod>d<dm. (segments (block_list impl' ! b') ! d
                                  + of_bool (bounded_pos (block_list impl' ! b') ! d))) < 2 ^ 32 \<longrightarrow>
         (\<forall>b<length blocks. \<forall>d<dm.
            nb_points (block_list impl' ! b) ! d =
              subdivs ! b ! d + of_bool (bounded_pos (block_list impl' ! b) ! d)) \<and>
         (\<forall>b<length blocks.
            start_index (block_list impl' ! b) =
              (\<Sum>b'<b. \<Prod>d<dm. (segments (block_list impl' ! b') ! d
                                  + of_bool (bounded_pos (block_list impl' ! b') ! d)))))) \<and>
   (NodeIndices3D fc3 bd rank np = Inr nd \<longrightarrow>
      (\<forall>b<length (block_subdivisions bd).
         (\<exists>rx ry rz. fc3 b KSI_POS = Some rx \<and> fc3 b ETA_POS = Some ry \<and> fc3 b ZTA_POS = Some rz \<and>
            bounded nd ! b ! XX = (dimensionality rx = DIM_2D) \<and>
            bounded nd ! b ! YY = (dimensionality ry = DIM_2D) \<and>
            bounded nd ! b ! ZZ = (dimensionality rz = DIM_2D))) \<and>
      (\<forall>b\<le>length (block_subdivisions bd).
         block_first_nodes nd ! b =
           uint (\<Sum>b'<b. \<Prod>d<3. (block_subdivisions bd ! b' ! d + of_bool (bounded nd ! b' ! d)))) \<and>
      length (block_first_nodes nd) = length (block_subdivisions bd) + 1 \<and>
      (block_distribution bd ! 0 = 0 \<and>
       block_distribution bd ! np = length (block_subdivisions bd) \<longrightarrow>
         nodes_dist nd ! np = last (block_first_nodes nd) \<and>
         nodes_dist nd ! np =
           uint (\<Sum>b'<length (block_subdivisions bd).
               \<Prod>d<3. (block_subdivisions bd ! b' ! d + of_bool (bounded nd ! b' ! d)))) \<and>
      ((\<Sum>b'<length (block_subdivisions bd).
           \<Prod>d<3. (block_subdivisions bd ! b' ! d + of_bool (bounded nd ! b' ! d))) < 2 ^ 32 \<longrightarrow>
         (\<forall>b\<le>length (block_subdivisions bd).
            block_first_nodes nd ! b =
              (\<Sum>b'<b. \<Prod>d<3. (block_subdivisions bd ! b' ! d + of_bool (bounded nd ! b' ! d)))) \<and>
         (block_distribution bd ! 0 = 0 \<and>
          block_distribution bd ! np = length (block_subdivisions bd) \<longrightarrow>
            nodes_dist nd ! np =
              (\<Sum>b'<length (block_subdivisions bd).
                  \<Prod>d<3. (block_subdivisions bd ! b' ! d + of_bool (bounded nd ! b' ! d))))))"
proof (intro conjI impI)
  assume cb: "create_blocks dm blocks subdivs fc impl = Inr impl'"
  let ?bl = "block_list impl'"
  let ?own = "\<lambda>b'. \<Prod>d<dm. (segments (?bl ! b') ! d + of_bool (bounded_pos (?bl ! b') ! d))"
  from create_blocks_Inr [OF cb] have
    dn: "\<And>b. b < length blocks \<Longrightarrow> block_done dm fc subdivs ?bl b"
    by simp
  have ax: "\<And>b d. b < length blocks \<Longrightarrow> d < dm \<Longrightarrow> axis_done dm fc (subdivs ! b) b (?bl ! b) d"
    using dn by (simp add: block_done_def)
  show axes: "\<forall>b<length blocks. \<forall>d<dm.
         (\<exists>r. fc b (positive_faces dm ! d) = Some r \<and>
              bounded_pos (?bl ! b) ! d = (dimensionality r \<noteq> dm)) \<and>
         segments (?bl ! b) ! d = subdivs ! b ! d \<and>
         nb_points (?bl ! b) ! d = uint (subdivs ! b ! d + of_bool (bounded_pos (?bl ! b) ! d))"
  proof (intro allI impI)
    fix b d assume "b < length blocks" "d < dm"
    from ax [OF this] show "(\<exists>r. fc b (positive_faces dm ! d) = Some r \<and>
              bounded_pos (?bl ! b) ! d = (dimensionality r \<noteq> dm)) \<and>
         segments (?bl ! b) ! d = subdivs ! b ! d \<and>
         nb_points (?bl ! b) ! d = uint (subdivs ! b ! d + of_bool (bounded_pos (?bl ! b) ! d))"
      by (auto simp: axis_done_def)
  qed
  have pts: "\<And>b. b < length blocks \<Longrightarrow> uint (owned_points dm (?bl ! b)) = uint (?own b)"
  proof -
    fix b assume b: "b < length blocks"
    have "\<forall>d<dm. axis_done dm fc (subdivs ! b) b (?bl ! b) d" using ax [OF b] by simp
    then show "uint (owned_points dm (?bl ! b)) = uint (?own b)"
      by (rule owned_points_product)
  qed
  show starts: "\<forall>b<length blocks. start_index (?bl ! b) = uint (\<Sum>b'<b. ?own b')"
  proof (intro allI impI)
    fix b assume b: "b < length blocks"
    from dn [OF b] have "start_index (?bl ! b) = uint (\<Sum>b'<b. owned_points dm (?bl ! b'))"
      by (simp add: block_done_def)
    also have "\<dots> = uint (\<Sum>b'<b. ?own b')"
      by (rule uint_sum_cong) (use b pts in simp)
    finally show "start_index (?bl ! b) = uint (\<Sum>b'<b. ?own b')" .
  qed
  assume r: "(\<forall>b<length blocks. \<forall>d<dm. subdivs ! b ! d + 1 < 2 ^ 32) \<and>
       (\<Sum>b'<length blocks. ?own b') < 2 ^ 32"
  show "\<forall>b<length blocks. \<forall>d<dm.
            nb_points (?bl ! b) ! d = subdivs ! b ! d + of_bool (bounded_pos (?bl ! b) ! d)"
  proof (intro allI impI)
    fix b d assume bd: "b < length blocks" "d < dm"
    with r have "subdivs ! b ! d + 1 < 2 ^ 32" by simp
    then have "subdivs ! b ! d + of_bool (bounded_pos (?bl ! b) ! d) < 2 ^ 32"
      by (cases "bounded_pos (?bl ! b) ! d") simp_all
    then have "uint (subdivs ! b ! d + of_bool (bounded_pos (?bl ! b) ! d)) =
        subdivs ! b ! d + of_bool (bounded_pos (?bl ! b) ! d)"
      by (rule uint_id)
    with axes bd show "nb_points (?bl ! b) ! d =
        subdivs ! b ! d + of_bool (bounded_pos (?bl ! b) ! d)" by simp
  qed
  show "\<forall>b<length blocks. start_index (?bl ! b) = (\<Sum>b'<b. ?own b')"
  proof (intro allI impI)
    fix b assume b: "b < length blocks"
    then have "(\<Sum>b'<b. ?own b') \<le> (\<Sum>b'<length blocks. ?own b')"
      by (intro sum_prefix_le) simp
    with r have "(\<Sum>b'<b. ?own b') < 2 ^ 32" by simp
    then have "uint (\<Sum>b'<b. ?own b') = (\<Sum>b'<b. ?own b')" by (rule uint_id)
    with starts b show "start_index (?bl ! b) = (\<Sum>b'<b. ?own b')" by simp
  qed
next
  assume ctor: "NodeIndices3D fc3 bd rank np = Inr nd"
  let ?nb = "length (block_subdivisions bd)"
  let ?fns = "block_first_nodes nd"
  let ?own = "\<lambda>b'. \<Prod>d<3. (block_subdivisions bd ! b' ! d + of_bool (bounded nd ! b' ! d))"
  note C = NodeIndices3D_Inr [OF ctor]
  from C have loop: "foldE (first_nodes_step_3d fc3 bd) [0..<?nb] ([], [0])
           = Inr (bounded nd, ?fns)" by simp
  note L = first_nodes_loop_3d [OF loop]
  have cnt: "\<And>b. b < ?nb \<Longrightarrow>
      \<exists>m. counted_3d fc3 bd b (bounded nd ! b) m \<and> ?fns ! (b + 1) = uint (?fns ! b + m)"
    using L by simp
  have step: "\<And>b. b < ?nb \<Longrightarrow> ?fns ! (b + 1) = uint (?fns ! b + ?own b)"
  proof -
    fix b assume b: "b < ?nb"
    from cnt [OF b] obtain m where r: "bounded_row_3d fc3 b = Inr (bounded nd ! b)"
      and n: "nb_nodes_3d (block_subdivisions bd ! b) (bounded nd ! b) = Inr m"
      and f: "?fns ! (b + 1) = uint (?fns ! b + m)"
      by (auto simp add: counted_3d_def)
    from nb_nodes_3d_product [OF r n] have "m = uint (?own b)"
      unfolding prod_lessThan_3 by simp
    with f show "?fns ! (b + 1) = uint (?fns ! b + ?own b)" by (simp add: uint_add)
  qed
  show "\<forall>b<?nb.
         (\<exists>rx ry rz. fc3 b KSI_POS = Some rx \<and> fc3 b ETA_POS = Some ry \<and> fc3 b ZTA_POS = Some rz \<and>
            bounded nd ! b ! XX = (dimensionality rx = DIM_2D) \<and>
            bounded nd ! b ! YY = (dimensionality ry = DIM_2D) \<and>
            bounded nd ! b ! ZZ = (dimensionality rz = DIM_2D))"
  proof (intro allI impI)
    fix b assume b: "b < ?nb"
    from cnt [OF b] have "bounded_row_3d fc3 b = Inr (bounded nd ! b)"
      by (auto simp add: counted_3d_def)
    from bounded_row_3d_faces [OF this]
    show "\<exists>rx ry rz. fc3 b KSI_POS = Some rx \<and> fc3 b ETA_POS = Some ry \<and> fc3 b ZTA_POS = Some rz \<and>
            bounded nd ! b ! XX = (dimensionality rx = DIM_2D) \<and>
            bounded nd ! b ! YY = (dimensionality ry = DIM_2D) \<and>
            bounded nd ! b ! ZZ = (dimensionality rz = DIM_2D)"
      by (simp add: XX_def YY_def ZZ_def)
  qed
  have f0: "?fns ! 0 = 0" using L by simp
  have steps: "\<forall>b<?nb. ?fns ! (b + 1) = uint (?fns ! b + ?own b)" using step by simp
  have sums: "\<And>b. b \<le> ?nb \<Longrightarrow> ?fns ! b = uint (\<Sum>b'<b. ?own b')"
    by (rule prefix_sums_uint [OF f0 steps])
  then show "\<forall>b\<le>?nb. ?fns ! b = uint (\<Sum>b'<b. ?own b')" by simp
  show len: "length ?fns = ?nb + 1" using L by simp
  from C have nloop: "foldE (nodes_dist_step ?fns (block_distribution bd)) [0..<np] [0] = Inr (nodes_dist nd)"
    by (simp add: nodes_dist_loop_def)
  have "?fns \<noteq> []" using len by auto
  then have lastf: "last ?fns = ?fns ! ?nb" using len by (simp add: last_conv_nth)
  have total: "nodes_dist nd ! np = ?fns ! ?nb"
    if d: "block_distribution bd ! 0 = 0 \<and> block_distribution bd ! np = ?nb"
  proof -
    have "nodes_dist nd ! np =
        uint_minus (?fns ! (block_distribution bd ! np)) (?fns ! (block_distribution bd ! 0))"
      by (rule nodes_dist_telescope [OF nloop]) simp
    with d f0 have "nodes_dist nd ! np = uint (?fns ! ?nb)" by (simp add: uint_minus_zero)
    also have "\<dots> = ?fns ! ?nb" using sums [of ?nb] by (simp add: uint_uint)
    finally show ?thesis .
  qed
  {
    assume d: "block_distribution bd ! 0 = 0 \<and> block_distribution bd ! np = ?nb"
    from total [OF d] lastf show "nodes_dist nd ! np = last ?fns" by simp
    from total [OF d] sums [of ?nb] show "nodes_dist nd ! np = uint (\<Sum>b'<?nb. ?own b')" by simp
  }
  assume r: "(\<Sum>b'<?nb. ?own b') < 2 ^ 32"
  have exact: "\<And>b. b \<le> ?nb \<Longrightarrow> ?fns ! b = (\<Sum>b'<b. ?own b')"
    by (rule prefix_sums_exact [OF f0 steps r])
  then show "\<forall>b\<le>?nb. ?fns ! b = (\<Sum>b'<b. ?own b')" by simp
  assume d: "block_distribution bd ! 0 = 0 \<and> block_distribution bd ! np = ?nb"
  from total [OF d] exact [of ?nb] show "nodes_dist nd ! np = (\<Sum>b'<?nb. ?own b')" by simp
qed
section \<open>Evaluation of the examples\<close>

lemma uint_numeral:
  "uint (numeral k) = numeral k mod 4294967296" "uint 0 = 0" "uint 1 = 1" "uint (Suc 0) = Suc 0"
  by (simp_all add: uint_def)

lemmas uint_minus_numeral = uint_id uint_minus_id uint_minus_wrap uint_minus_zero Let_def

lemma bindE_weak_cong: "m = m' \<Longrightarrow> bindE m f = bindE m' f" by simp
lemma liftR_weak_cong: "m = m' \<Longrightarrow> liftR m f = liftR m' f" by simp
lemma bindR_weak_cong: "m = m' \<Longrightarrow> bindR m f = bindR m' f" by simp

lemmas eval_congs = bindE_weak_cong liftR_weak_cong bindR_weak_cong if_weak_cong
  option.case_cong_weak prod.case_cong_weak sum.case_cong_weak

lemma global_idx_numeral:
  "global_idx_3d (numeral k) nd = global_idx_3d_body (global_idx_3d (pred_numeral k) nd) nd"
  "global_idx_2d (numeral k) nd = global_idx_2d_body (global_idx_2d (pred_numeral k) nd) nd"
  by (simp_all add: numeral_eq_Suc)

lemma all_less_2: "(\<forall>b<(2::nat). P b) = (P 0 \<and> P 1)"
proof -
  have "\<And>b::nat. b < 2 \<longleftrightarrow> b = 0 \<or> b = 1" by arith
  then show ?thesis by auto
qed

lemma all_less_3: "(\<forall>b<(3::nat). P b) = (P 0 \<and> P 1 \<and> P 2)"
proof -
  have "\<And>b::nat. b < 3 \<longleftrightarrow> b = 0 \<or> b = 1 \<or> b = 2" by arith
  then show ?thesis by auto
qed

lemma replicate_small: "replicate 2 x = [x, x]" "replicate 3 x = [x, x, x]"
  by (simp_all add: numeral_2_eq_2 numeral_3_eq_3)

lemma sum_lessThan_2: "(\<Sum>b<(2::nat). f b) = (f 0 + f 1 :: nat)"
  by (simp add: numeral_2_eq_2)

lemmas ctor_defs = NodeIndices3D_def NodeIndices2D_def first_nodes_step_3d_def first_nodes_step_2d_def
  bounded_row_3d_def bounded_row_2d_def nb_nodes_3d_def nb_nodes_2d_def nodes_dist_loop_def
  nodes_dist_step_def adjacent_element_def uint_numeral uint_minus_numeral upt_rec

lemmas blocks_defs = create_blocks_def create_blocks_step_def create_blocks_axis_def
  create_blocks_patches_def create_blocks_patch_dir_def new_Patch_def add_to_patch_map_def
  positive_faces_def negative_faces_def new_Block_def adjacent_element_def replicate_small
  uint_numeral uint_minus_numeral upt_rec

lemmas global_idx_defs = global_idx_numeral global_idx_3d_body_def global_idx_2d_body_def
  checked_return_def bounded_at_def adjacent_block_def adjacent_element_def uint_numeral uint_id

lemma channel_fields:
  "block_subdivisions channel_data = [[4,2,2],[4,2,2]]"
  "block_distribution channel_data = [0,1,2]"
  "length (block_points channel_data) = 2"
  by (simp_all add: channel_data_def)

lemma channel_oracle:
  "rank < 2 \<Longrightarrow> NodeIndices3D channel_connectivity channel_data rank 2 =
     Inr \<lparr>local_nodes_begin = [0, 36, 81] ! rank, local_nodes_end = [0, 36, 81] ! (rank + 1),
        ghost_counter = 0, global_to_local = Map.empty,
        block_first_nodes = [0, 36, 81], nodes_dist = [0, 36, 81],
        bounded = [[False, True, True, False, False, True, False],
                   [True, True, True, True, True, True, True]],
        m_face_connectivity = channel_connectivity, m_block_data = channel_data,
        m_rank = rank, m_nb_procs = 2\<rparr>"
  by (simp add: ctor_defs channel_fields channel_connectivity_def volume_ref_def surface_ref_def
       face_defs axis_defs uint_id cong: eval_congs)

lemma channel_blocks:
  "isl (create_blocks 3 (block_points channel_data) (block_subdivisions channel_data)
      channel_connectivity new_Implementation) = False"
  "map (\<lambda>b. (nb_points b, segments b, bounded_pos b, start_index b))
     (block_list (projr (create_blocks 3 (block_points channel_data)
        (block_subdivisions channel_data) channel_connectivity new_Implementation))) =
   [([4, 3, 3], [4, 2, 2], [False, True, True], 0), ([5, 3, 3], [4, 2, 2], [True, True, True], 36)]"
  by (simp_all add: blocks_defs channel_fields channel_connectivity_def volume_ref_def surface_ref_def
       new_Implementation_def face_defs axis_defs cong: eval_congs)

lemma l_shape_fields:
  "block_subdivisions l_shape_data = [[1,1],[1,1],[1,1]]"
  "block_distribution l_shape_data = [0,3]"
  by (simp_all add: l_shape_data_def)

lemma l_shape_oracle:
  "NodeIndices2D l_shape_connectivity l_shape_data 0 1 =
     Inr \<lparr>local_nodes_begin = 0, local_nodes_end = 9,
        ghost_counter = 0, global_to_local = Map.empty,
        block_first_nodes = [0, 1, 5, 9], nodes_dist = [0, 9],
        bounded = [[False, False, False], [True, True, True], [True, True, True]],
        m_face_connectivity = l_shape_connectivity, m_block_data = l_shape_data,
        m_rank = 0, m_nb_procs = 1\<rparr>"
  by (simp add: ctor_defs l_shape_fields l_shape_connectivity_def volume_ref_def surface_ref_def
       face_defs axis_defs cong: eval_congs)

theorem owned_node_counts_witness:
  "create_blocks 3 (block_points channel_data) (block_subdivisions channel_data)
      channel_connectivity new_Implementation =
     Inr (projr (create_blocks 3 (block_points channel_data) (block_subdivisions channel_data)
      channel_connectivity new_Implementation)) \<and>
   map nb_points (block_list (projr (create_blocks 3 (block_points channel_data)
      (block_subdivisions channel_data) channel_connectivity new_Implementation))) = [[4, 3, 3], [5, 3, 3]] \<and>
   start_index (block_list (projr (create_blocks 3 (block_points channel_data)
      (block_subdivisions channel_data) channel_connectivity new_Implementation)) ! 1) = 36 \<and>
   NodeIndices3D channel_connectivity channel_data 0 2 =
     Inr (projr (NodeIndices3D channel_connectivity channel_data 0 2)) \<and>
   block_first_nodes (projr (NodeIndices3D channel_connectivity channel_data 0 2)) = [0, 36, 81] \<and>
   nodes_dist (projr (NodeIndices3D channel_connectivity channel_data 0 2)) ! 2 = 81"
proof -
  let ?X = "create_blocks 3 (block_points channel_data) (block_subdivisions channel_data)
      channel_connectivity new_Implementation"
  let ?N = "NodeIndices3D channel_connectivity channel_data 0 2"
  let ?bl = "block_list (projr ?X)"
  have "\<not> isl ?X" by (simp add: channel_blocks)
  then have X: "?X = Inr (projr ?X)" by (rule Inr_projr)
  have N: "?N = Inr (projr ?N)" by (simp add: channel_oracle)
  note T = owned_node_counts [of 3 "block_points channel_data" "block_subdivisions channel_data"
      channel_connectivity new_Implementation "projr ?X" channel_connectivity channel_data 0 2 "projr ?N"]
  note B = channel_blocks(2)
  have len: "length ?bl = 2" using arg_cong [OF B, of length] by simp
  have b0: "(nb_points (?bl ! 0), segments (?bl ! 0), bounded_pos (?bl ! 0), start_index (?bl ! 0)) =
      ([4, 3, 3], [4, 2, 2], [False, True, True], 0)"
    using arg_cong [OF B, of "\<lambda>xs. xs ! 0"] len by simp
  have b1: "(nb_points (?bl ! 1), segments (?bl ! 1), bounded_pos (?bl ! 1), start_index (?bl ! 1)) =
      ([5, 3, 3], [4, 2, 2], [True, True, True], 36)"
    using arg_cong [OF B, of "\<lambda>xs. xs ! 1"] len by simp
  from b0 b1 have f: "segments (?bl ! 0) = [4, 2, 2]" "bounded_pos (?bl ! 0) = [False, True, True]"
    "segments (?bl ! 1) = [4, 2, 2]" "bounded_pos (?bl ! 1) = [True, True, True]"
    "nb_points (?bl ! 0) = [4, 3, 3]" "nb_points (?bl ! 1) = [5, 3, 3]"
    by simp_all
  have pts: "map nb_points ?bl = [[4, 3, 3], [5, 3, 3]]"
    using len f by (simp add: list_eq_iff_nth_eq all_less_2)
  have r: "(\<forall>b<length (block_points channel_data). \<forall>d<3.
        block_subdivisions channel_data ! b ! d + 1 < 2 ^ 32) \<and>
     (\<Sum>b'<length (block_points channel_data). \<Prod>d<3. (segments (?bl ! b') ! d
                                  + of_bool (bounded_pos (?bl ! b') ! d))) < 2 ^ 32"
    using f by (simp add: channel_fields all_less_2 all_less_3 sum_lessThan_2 prod_lessThan_3)
  have one: "(1::nat) < length (block_points channel_data)" by (simp add: channel_fields)
  from T [THEN conjunct1, rule_format, OF X, THEN conjunct2, THEN conjunct2, rule_format, OF r,
      THEN conjunct2, rule_format, OF one]
  have "start_index (?bl ! 1) =
      (\<Sum>b'<1. \<Prod>d<3. (segments (?bl ! b') ! d + of_bool (bounded_pos (?bl ! b') ! d)))" .
  also have "\<dots> = 36" using f by (simp add: prod_lessThan_3)
  finally have start: "start_index (?bl ! 1) = 36" .
  have fns: "block_first_nodes (projr ?N) = [0, 36, 81]" by (simp add: channel_oracle)
  have bnd: "bounded (projr ?N) = [[False, True, True, False, False, True, False],
                   [True, True, True, True, True, True, True]]" by (simp add: channel_oracle)
  have tot: "(\<Sum>b'<length (block_subdivisions channel_data).
           \<Prod>d<3. (block_subdivisions channel_data ! b' ! d + of_bool (bounded (projr ?N) ! b' ! d)))
       < 2 ^ 32"
    using bnd by (simp add: channel_fields sum_lessThan_2 prod_lessThan_3)
  have d: "block_distribution channel_data ! 0 = 0 \<and>
       block_distribution channel_data ! 2 = length (block_subdivisions channel_data)"
    by (simp add: channel_fields)
  from T [THEN conjunct2, rule_format, OF N, THEN conjunct2, THEN conjunct2, THEN conjunct2,
      THEN conjunct2, rule_format, OF tot, THEN conjunct2, rule_format, OF d]
  have "nodes_dist (projr ?N) ! 2 =
      (\<Sum>b'<length (block_subdivisions channel_data).
           \<Prod>d<3. (block_subdivisions channel_data ! b' ! d + of_bool (bounded (projr ?N) ! b' ! d)))" .
  also have "\<dots> = 81" using bnd by (simp add: channel_fields sum_lessThan_2 prod_lessThan_3)
  finally have total: "nodes_dist (projr ?N) ! 2 = 81" .
  from X pts start N fns total show ?thesis by blast
qed

theorem global_idx_rank_independent_witness:
  "NodeIndices3D channel_connectivity channel_data 0 2 =
     Inr (projr (NodeIndices3D channel_connectivity channel_data 0 2)) \<and>
   NodeIndices3D channel_connectivity channel_data 1 2 =
     Inr (projr (NodeIndices3D channel_connectivity channel_data 1 2)) \<and>
   global_idx_3d 2 (projr (NodeIndices3D channel_connectivity channel_data 0 2)) 0 4 1 1 = Some (Inr 48) \<and>
   global_idx_3d 2 (projr (NodeIndices3D channel_connectivity channel_data 1 2)) 0 4 1 1 = Some (Inr 48) \<and>
   local_nodes_begin (projr (NodeIndices3D channel_connectivity channel_data 0 2)) = 0 \<and>
   local_nodes_begin (projr (NodeIndices3D channel_connectivity channel_data 1 2)) = 36 \<and>
   NodeIndices2D l_shape_connectivity l_shape_data 0 1 =
     Inr (projr (NodeIndices2D l_shape_connectivity l_shape_data 0 1)) \<and>
   global_idx_2d 2 (projr (NodeIndices2D l_shape_connectivity l_shape_data 0 1)) 0 1 0 = Some (Inr 1)"
proof -
  let ?N0 = "NodeIndices3D channel_connectivity channel_data 0 2"
  let ?N1 = "NodeIndices3D channel_connectivity channel_data 1 2"
  let ?M = "NodeIndices2D l_shape_connectivity l_shape_data 0 1"
  have N0: "?N0 = Inr (projr ?N0)" by (simp add: channel_oracle)
  have N1: "?N1 = Inr (projr ?N1)" by (simp add: channel_oracle)
  have M: "?M = Inr (projr ?M)" using l_shape_oracle by simp
  note T = global_idx_rank_independent [where fc = channel_connectivity and bd = channel_data
      and ?rank1.0 = 0 and ?rank2.0 = 1 and np = 2 and ?nd1.0 = "projr ?N0" and ?nd2.0 = "projr ?N1"
      and fuel = 2 and block = 0 and i = 4 and j = 1 and k = 1]
  from T [THEN conjunct1, rule_format, OF conjI [OF N0 N1]]
  have eq: "global_idx_3d 2 (projr ?N0) 0 4 1 1 = global_idx_3d 2 (projr ?N1) 0 4 1 1" .
  have g0: "global_idx_3d 2 (projr ?N0) 0 4 1 1 = Some (Inr 48)"
    by (simp add: channel_oracle global_idx_defs channel_fields channel_connectivity_def
          volume_ref_def surface_ref_def face_defs axis_defs cong: eval_congs)
  with eq have g1: "global_idx_3d 2 (projr ?N1) 0 4 1 1 = Some (Inr 48)" by simp
  have b0: "local_nodes_begin (projr ?N0) = 0" by (simp add: channel_oracle)
  have b1: "local_nodes_begin (projr ?N1) = 36" by (simp add: channel_oracle)
  note U = global_idx_rank_independent [where fc = l_shape_connectivity and bd = l_shape_data
      and ?rank1.0 = 0 and ?rank2.0 = 0 and np = 1 and ?md1.0 = "projr ?M" and ?md2.0 = "projr ?M"
      and fuel = 2 and block = 0 and i = 1 and j = 0]
  from U [THEN conjunct2, rule_format, OF conjI [OF M M]]
  have "global_idx_2d 2 (projr ?M) 0 1 0 = global_idx_2d 2 (projr ?M) 0 1 0" .
  moreover have "global_idx_2d 2 (projr ?M) 0 1 0 = Some (Inr 1)"
    using l_shape_oracle
    by (simp add: global_idx_defs l_shape_fields l_shape_connectivity_def
          volume_ref_def surface_ref_def face_defs axis_defs cong: eval_congs)
  ultimately have m: "global_idx_2d 2 (projr ?M) 0 1 0 = Some (Inr 1)" by simp
  from N0 N1 g0 g1 b0 b1 M m show ?thesis by blast
qed
section \<open>The ghost map\<close>









lemma requests_bounds [simp]:
  "local_nodes_begin (requests gids s) = local_nodes_begin s"
  "local_nodes_end (requests gids s) = local_nodes_end s"
  by (induction gids arbitrary: s) simp_all






section \<open>Nodes on shared faces\<close>

section \<open>Resolution by hops\<close>

text \<open>
  The argument that is common to the 2D and the 3D oracle. A state is a block with a
  node index; \<open>G f\<close> is the oracle with fuel \<open>f\<close>. A state has \<open>m\<close> indices on positive
  faces; \<open>first\<close> is the axis the oracle hops along, if any; \<open>hop s d\<close> is the same
  node seen from the neighbour along \<open>d\<close>.
\<close>

lemma hop_total:
  fixes G :: "nat \<Rightarrow> 's \<Rightarrow> nat result option"
  assumes E_own: "\<forall>f s. ok s \<longrightarrow>
        first s = None \<longrightarrow>
        G (Suc f) s = Some (Inr (own s)) \<and> own s < tot_nodes"
    and E_dir: "\<forall>f s e. ok s \<longrightarrow>
        first s = Some e \<longrightarrow>
        m s = 1 \<longrightarrow>
        G (Suc f) s = Some (Inr (own (hop s e)))"
    and E_rec: "\<forall>f s e. ok s \<longrightarrow>
        first s = Some e \<longrightarrow>
        2 \<le> m s \<longrightarrow>
        G (Suc f) s = bindR (G f (hop s e)) (\<lambda>r. Some (if r < tot_nodes then Inr r else Inl FailedAssertion))"
    and H_first: "\<forall>s e. ok s \<longrightarrow>
        first s = Some e \<longrightarrow>
        can_hop s e"
    and H_hop: "\<forall>s d. ok s \<longrightarrow>
        can_hop s d \<longrightarrow>
        ok (hop s d) \<and> Suc (m (hop s d)) = m s"
    and H_interior: "\<forall>s. ok s \<longrightarrow>
        m s = 0 \<longrightarrow>
        first s = None"
  shows "ok s \<Longrightarrow> m s < f \<Longrightarrow> m s < f' \<Longrightarrow>
     \<exists>g<tot_nodes. G f s = Some (Inr g) \<and> G f' s = Some (Inr g)"
proof (induction f arbitrary: s f')
  case 0
  then show ?case by simp
next
  case (Suc f)
  from Suc.prems(3) obtain f'' where f': "f' = Suc f''" by (cases f') auto
  show ?case
  proof (cases "first s")
    case None
    with E_own [rule_format, OF Suc.prems(1)] show ?thesis by (auto simp: f')
  next
    case (Some e)
    with H_interior [rule_format, OF Suc.prems(1)] have m1: "1 \<le> m s" by (cases "m s") auto
    from H_first [rule_format, OF Suc.prems(1) Some] have ch: "can_hop s e" .
    from H_hop [rule_format, OF Suc.prems(1) ch] have okh: "ok (hop s e)" and mh: "Suc (m (hop s e)) = m s"
      by simp_all
    show ?thesis
    proof (cases "m s = 1")
      case True
      from True mh have "m (hop s e) = 0" by simp
      with H_interior [rule_format, OF okh] have "first (hop s e) = None" by simp
      from E_own [rule_format, OF okh this] have "own (hop s e) < tot_nodes" by simp
      with E_dir [rule_format, OF Suc.prems(1) Some True] show ?thesis by (auto simp: f')
    next
      case False
      with m1 have m2: "2 \<le> m s" by simp
      from mh Suc.prems(2,3) f' have "m (hop s e) < f" "m (hop s e) < f''" by simp_all
      from Suc.IH [OF okh this] obtain g where
        g: "g < tot_nodes" "G f (hop s e) = Some (Inr g)" "G f'' (hop s e) = Some (Inr g)" by blast
      with E_rec [rule_format, OF Suc.prems(1) Some m2, of f] E_rec [rule_format, OF Suc.prems(1) Some m2, of f'']
      show ?thesis by (auto simp: f')
    qed
  qed
qed


lemma regularD:
  assumes "regular dm nbr faces fc bd" and "b < length (block_subdivisions bd)"
  shows "length (block_subdivisions bd ! b) = dm"
    and "\<And>d. d < dm \<Longrightarrow> 0 < seg_count bd b d \<and> fc b (faces ! d) \<noteq> None"
    and "\<And>d c. d < dm \<Longrightarrow> nbr fc b d = Some c \<Longrightarrow>
           c < length (block_subdivisions bd) \<and>
           (\<forall>e<dm. e \<noteq> d \<longrightarrow> seg_count bd c e = seg_count bd b e \<and>
              (\<forall>c'. nbr fc b e = Some c' \<longrightarrow> nbr fc c e \<noteq> None \<and> nbr fc c e = nbr fc c' d))"
proof -
  from assms(2) have "b \<in> set [0..<length (block_subdivisions bd)]" by simp
  with assms(1) have
    r: "length (block_subdivisions bd ! b) = dm \<and>
        (\<forall>d \<in> set [0..<dm].
           0 < seg_count bd b d \<and> fc b (faces ! d) \<noteq> None \<and>
           (case nbr fc b d of
              None \<Rightarrow> True
            | Some c \<Rightarrow>
                c < length (block_subdivisions bd) \<and>
                (\<forall>e \<in> set [0..<dm]. e \<noteq> d \<longrightarrow>
                   seg_count bd c e = seg_count bd b e \<and>
                   (case nbr fc b e of
                      None \<Rightarrow> True
                    | Some c' \<Rightarrow> nbr fc c e \<noteq> None \<and> nbr fc c e = nbr fc c' d))))"
    unfolding regular_def by (rule bspec)
  then show "length (block_subdivisions bd ! b) = dm" by simp
  show "0 < seg_count bd b d \<and> fc b (faces ! d) \<noteq> None" if "d < dm" for d
  proof -
    from that have "d \<in> set [0..<dm]" by simp
    with r show ?thesis by blast
  qed
  show "c < length (block_subdivisions bd) \<and>
           (\<forall>e<dm. e \<noteq> d \<longrightarrow> seg_count bd c e = seg_count bd b e \<and>
              (\<forall>c'. nbr fc b e = Some c' \<longrightarrow> nbr fc c e \<noteq> None \<and> nbr fc c e = nbr fc c' d))"
    if "d < dm" and c: "nbr fc b d = Some c" for d c
  proof -
    from that have "d \<in> set [0..<dm]" by simp
    with r have "case nbr fc b d of
              None \<Rightarrow> True
            | Some c \<Rightarrow>
                c < length (block_subdivisions bd) \<and>
                (\<forall>e \<in> set [0..<dm]. e \<noteq> d \<longrightarrow>
                   seg_count bd c e = seg_count bd b e \<and>
                   (case nbr fc b e of
                      None \<Rightarrow> True
                    | Some c' \<Rightarrow> nbr fc c e \<noteq> None \<and> nbr fc c e = nbr fc c' d))"
      by blast
    with c have cc: "c < length (block_subdivisions bd)"
      and e: "\<forall>e \<in> set [0..<dm]. e \<noteq> d \<longrightarrow>
                   seg_count bd c e = seg_count bd b e \<and>
                   (case nbr fc b e of
                      None \<Rightarrow> True
                    | Some c' \<Rightarrow> nbr fc c e \<noteq> None \<and> nbr fc c e = nbr fc c' d)"
      by simp_all
    have "\<forall>e<dm. e \<noteq> d \<longrightarrow> seg_count bd c e = seg_count bd b e \<and>
              (\<forall>c'. nbr fc b e = Some c' \<longrightarrow> nbr fc c e \<noteq> None \<and> nbr fc c e = nbr fc c' d)"
    proof (intro allI impI)
      fix e assume "e < dm" "e \<noteq> d"
      then have "e \<in> set [0..<dm]" by simp
      with e \<open>e \<noteq> d\<close> have "seg_count bd c e = seg_count bd b e \<and>
                   (case nbr fc b e of
                      None \<Rightarrow> True
                    | Some c' \<Rightarrow> nbr fc c e \<noteq> None \<and> nbr fc c e = nbr fc c' d)"
        by blast
      then show "seg_count bd c e = seg_count bd b e \<and>
              (\<forall>c'. nbr fc b e = Some c' \<longrightarrow> nbr fc c e \<noteq> None \<and> nbr fc c e = nbr fc c' d)"
        by (cases "nbr fc b e") (simp, simp del: not_None_eq, metis)
    qed
    with cc show ?thesis by blast
  qed
qed








lemma regular_2d_block:
  assumes "oracle_ok_2d nd" and "b < nb_blocks_of nd"
  shows "length (block_subdivisions (m_block_data nd) ! b) = 2"
    and "0 < sgc nd b 0" and "0 < sgc nd b 1"
    and "m_face_connectivity nd b XPOS \<noteq> None" and "m_face_connectivity nd b YPOS \<noteq> None"
proof -
  from assms have r: "regular 2 neighbour_2d [XPOS, YPOS] (m_face_connectivity nd) (m_block_data nd)"
    and b: "b < length (block_subdivisions (m_block_data nd))"
    by (simp_all add: oracle_ok_2d_def regular_2d_def nb_blocks_of_def)
  from regularD(1) [OF r b] show "length (block_subdivisions (m_block_data nd) ! b) = 2" .
  from regularD(2) [OF r b, of 0] show "0 < sgc nd b 0" "m_face_connectivity nd b XPOS \<noteq> None"
    by (simp_all add: sgc_def)
  from regularD(2) [OF r b, of 1] show "0 < sgc nd b 1" "m_face_connectivity nd b YPOS \<noteq> None"
    by (simp_all add: sgc_def)
qed

lemma regular_2d_nbr:
  assumes "oracle_ok_2d nd" and "b < nb_blocks_of nd" and "nbr2 nd b d = Some c" and "d < 2"
  shows "c < nb_blocks_of nd"
    and "\<And>e. e < 2 \<Longrightarrow> e \<noteq> d \<Longrightarrow> sgc nd c e = sgc nd b e"
    and "\<And>e c'. e < 2 \<Longrightarrow> e \<noteq> d \<Longrightarrow> nbr2 nd b e = Some c' \<Longrightarrow>
           nbr2 nd c e \<noteq> None \<and> nbr2 nd c e = nbr2 nd c' d"
proof -
  from assms have r: "regular 2 neighbour_2d [XPOS, YPOS] (m_face_connectivity nd) (m_block_data nd)"
    and b: "b < length (block_subdivisions (m_block_data nd))"
    and c: "neighbour_2d (m_face_connectivity nd) b d = Some c"
    by (simp_all add: oracle_ok_2d_def regular_2d_def nb_blocks_of_def nbr2_def)
  note R = regularD(3) [OF r b assms(4) c]
  from R show "c < nb_blocks_of nd" by (simp add: nb_blocks_of_def)
  from R show "\<And>e. e < 2 \<Longrightarrow> e \<noteq> d \<Longrightarrow> sgc nd c e = sgc nd b e" by (simp add: sgc_def)
  from R show "\<And>e c'. e < 2 \<Longrightarrow> e \<noteq> d \<Longrightarrow> nbr2 nd b e = Some c' \<Longrightarrow>
           nbr2 nd c e \<noteq> None \<and> nbr2 nd c e = nbr2 nd c' d"
    unfolding nbr2_def by blast
qed

lemma oracle_2d_reads:
  assumes ok: "oracle_ok_2d nd" and b: "b < nb_blocks_of nd"
  shows "vec_at (block_subdivisions (m_block_data nd) ! b) XX = Inr (sgc nd b 0)"
    and "vec_at (block_subdivisions (m_block_data nd) ! b) YY = Inr (sgc nd b 1)"
    and "bounded_at nd b XX = Inr (nbr2 nd b 0 = None)"
    and "bounded_at nd b YY = Inr (nbr2 nd b 1 = None)"
    and "bounded_at nd b XY_2D = Inr (nbr2 nd b 0 = None \<and> nbr2 nd b 1 = None)"
    and "\<And>c. nbr2 nd b 0 = Some c \<Longrightarrow> adjacent_block nd b XPOS = Inr c"
    and "\<And>c. nbr2 nd b 1 = Some c \<Longrightarrow> adjacent_block nd b YPOS = Inr c"
    and "block_first_nodes nd ! (b + 1) = block_first_nodes nd ! b + count_2d nd b"
proof -
  note R = regular_2d_block [OF ok b]
  from R(1) show "vec_at (block_subdivisions (m_block_data nd) ! b) XX = Inr (sgc nd b 0)"
    and "vec_at (block_subdivisions (m_block_data nd) ! b) YY = Inr (sgc nd b 1)"
    by (simp_all add: XX_def YY_def sgc_def seg_count_def)
  from ok b have row: "bounded_row_2d (m_face_connectivity nd) b = Inr (bounded nd ! b)"
    and lb: "b < length (bounded nd)"
    by (simp_all add: oracle_ok_2d_def)
  from R(4,5) obtain rx ry where
    rx: "m_face_connectivity nd b XPOS = Some rx" and ry: "m_face_connectivity nd b YPOS = Some ry"
    by auto
  have bx: "(dimensionality rx = DIM_1D) = (nbr2 nd b 0 = None)"
    and "by": "(dimensionality ry = DIM_1D) = (nbr2 nd b 1 = None)"
    using rx ry by (simp_all add: nbr2_def neighbour_2d_def)
  from row rx ry bx "by" have rowv: "bounded nd ! b =
      [nbr2 nd b 0 = None, nbr2 nd b 1 = None, nbr2 nd b 0 = None \<and> nbr2 nd b 1 = None]"
    by (simp add: bounded_row_2d_def adjacent_element_def Let_def)
  from lb rowv show "bounded_at nd b XX = Inr (nbr2 nd b 0 = None)"
    and "bounded_at nd b YY = Inr (nbr2 nd b 1 = None)"
    and "bounded_at nd b XY_2D = Inr (nbr2 nd b 0 = None \<and> nbr2 nd b 1 = None)"
    by (simp_all add: bounded_at_def XX_def YY_def XY_2D_def)
  show "\<And>c. nbr2 nd b 0 = Some c \<Longrightarrow> adjacent_block nd b XPOS = Inr c"
    using rx by (auto simp: adjacent_block_def adjacent_element_def nbr2_def neighbour_2d_def
        split: if_splits)
  show "\<And>c. nbr2 nd b 1 = Some c \<Longrightarrow> adjacent_block nd b YPOS = Inr c"
    using ry by (auto simp: adjacent_block_def adjacent_element_def nbr2_def neighbour_2d_def
        split: if_splits)
  from ok b show "block_first_nodes nd ! (b + 1) = block_first_nodes nd ! b + count_2d nd b"
    by (simp add: oracle_ok_2d_def)
qed

lemma checked_return_eval:
  "block_first_nodes nd \<noteq> [] \<Longrightarrow> checked_return nd r = ret_checked nd r"
  by (simp add: checked_return_def ret_checked_def node_total_def)

lemma steps_mono:
  fixes xs :: "nat list"
  assumes "\<forall>b<n. xs ! b \<le> xs ! (b + 1)" and "i \<le> j" and "j \<le> n"
  shows "xs ! i \<le> xs ! j"
  using assms(2,3)
proof (induction j rule: dec_induct)
  case base
  show ?case by simp
next
  case (step k)
  from step.prems have "k < n" by simp
  with assms(1) have "xs ! k \<le> xs ! (k + 1)" by blast
  with step show ?case by simp
qed

lemma steps_le_last:
  fixes xs :: "nat list"
  assumes "\<forall>b<n. xs ! b \<le> xs ! (b + 1)" and "length xs = n + 1" and "i \<le> n"
  shows "xs ! i \<le> last xs"
proof -
  from assms(2) have "xs \<noteq> []" by auto
  with assms(2) have "last xs = xs ! n" by (simp add: last_conv_nth)
  with steps_mono [OF assms(1) assms(3) le_refl] show ?thesis by simp
qed

lemma interior_bound_2d:
  fixes i j xs ys :: nat
  assumes "i < xs" and "j < ys"
  shows "i + j * xs < xs * ys"
proof -
  from assms(1) have "i + j * xs < Suc j * xs" by simp
  also from assms(2) have "Suc j * xs \<le> ys * xs" by (intro mult_le_mono1) simp
  finally show ?thesis by (simp add: mult.commute)
qed

lemma oracle_2d_total:
  assumes ok: "oracle_ok_2d nd" and b: "b < nb_blocks_of nd"
  shows "block_first_nodes nd ! b + count_2d nd b \<le> node_total nd"
    and "block_first_nodes nd \<noteq> []"
    and "vec_at (block_first_nodes nd) b = Inr (block_first_nodes nd ! b)"
    and "vec_at (block_subdivisions (m_block_data nd)) b = Inr (block_subdivisions (m_block_data nd) ! b)"
    and "node_total nd < 2 ^ 32"
proof -
  from ok have len: "length (block_first_nodes nd) = nb_blocks_of nd + 1"
    and steps: "\<forall>b<nb_blocks_of nd. block_first_nodes nd ! b \<le> block_first_nodes nd ! (b + 1)"
    by (simp_all add: oracle_ok_2d_def)
  from ok show "node_total nd < 2 ^ 32" by (simp add: oracle_ok_2d_def)
  from b have "b + 1 \<le> nb_blocks_of nd" by simp
  from steps_le_last [OF steps len this] oracle_2d_reads(8) [OF ok b]
  show "block_first_nodes nd ! b + count_2d nd b \<le> node_total nd"
    by (simp add: node_total_def)
  from len show "block_first_nodes nd \<noteq> []" by auto
  from len b show "vec_at (block_first_nodes nd) b = Inr (block_first_nodes nd ! b)" by simp
  from b show "vec_at (block_subdivisions (m_block_data nd)) b = Inr (block_subdivisions (m_block_data nd) ! b)"
    by (simp add: nb_blocks_of_def)
qed

lemma global_idx_2d_body_eval:
  assumes ok: "oracle_ok_2d nd" and b: "b < nb_blocks_of nd"
    and i: "i \<le> sgc nd b 0" and j: "j \<le> sgc nd b 1"
  shows "global_idx_2d_body self nd b i j =
     (if i \<noteq> sgc nd b 0 \<and> j \<noteq> sgc nd b 1 then
        Some (ret_checked nd (uint (block_first_nodes nd ! b + i + j * sgc nd b 0)))
      else if i = sgc nd b 0 \<and> j \<noteq> sgc nd b 1 then
        (case nbr2 nd b 0 of
           Some c \<Rightarrow> Some (ret_checked nd (uint (block_first_nodes nd ! c + j * sgc nd c 0)))
         | None \<Rightarrow>
             Some (ret_checked nd (uint (block_first_nodes nd ! b + sgc nd b 0 * sgc nd b 1 + j))))
      else if i \<noteq> sgc nd b 0 \<and> j = sgc nd b 1 then
        (case nbr2 nd b 1 of
           Some c \<Rightarrow> Some (ret_checked nd (uint (block_first_nodes nd ! c + i)))
         | None \<Rightarrow> Some (ret_checked nd (uint (block_first_nodes nd ! b + sgc nd b 0 * sgc nd b 1
                       + of_bool (nbr2 nd b 0 = None) * sgc nd b 1 + i))))
      else
        (case nbr2 nd b 0 of
           Some c \<Rightarrow> bindR (self c 0 j) (\<lambda>r. Some (ret_checked nd r))
         | None \<Rightarrow>
            (case nbr2 nd b 1 of
               Some c \<Rightarrow> bindR (self c i 0) (\<lambda>r. Some (ret_checked nd r))
             | None \<Rightarrow> Some (ret_checked nd (uint (block_first_nodes nd ! b + sgc nd b 0 * sgc nd b 1
                         + sgc nd b 1 + sgc nd b 0))))))"
proof -
  note R = oracle_2d_reads [OF ok b] oracle_2d_total(2-4) [OF ok b]
  from b have bl: "b < length (block_subdivisions (m_block_data nd))" by (simp add: nb_blocks_of_def)
  have nb: "vec_at (block_subdivisions (m_block_data nd)) c = Inr (block_subdivisions (m_block_data nd) ! c)
      \<and> vec_at (block_first_nodes nd) c = Inr (block_first_nodes nd ! c)
      \<and> vec_at (block_subdivisions (m_block_data nd) ! c) XX = Inr (sgc nd c 0)"
    if "nbr2 nd b d = Some c" and "d < 2" for c d
  proof -
    from regular_2d_nbr(1) [OF ok b that] have c: "c < nb_blocks_of nd" .
    from oracle_2d_total(3,4) [OF ok c] oracle_2d_reads(1) [OF ok c] show ?thesis by simp
  qed
  show ?thesis
  proof (cases "nbr2 nd b 0")
    case None
    note n0 = None
    show ?thesis
    proof (cases "nbr2 nd b 1")
      case None
      with n0 R bl i j show ?thesis
        by (simp add: global_idx_2d_body_def Let_def checked_return_eval)
    next
      case (Some c)
      with n0 R bl i j nb [OF Some] show ?thesis
        by (simp add: global_idx_2d_body_def Let_def checked_return_eval)
    qed
  next
    case (Some c)
    note n0 = Some
    show ?thesis
    proof (cases "nbr2 nd b 1")
      case None
      with n0 R bl i j nb [OF n0] show ?thesis
        by (simp add: global_idx_2d_body_def Let_def checked_return_eval)
    next
      case (Some c')
      with n0 R bl i j nb [OF n0] nb [OF Some] show ?thesis
        by (simp add: global_idx_2d_body_def Let_def checked_return_eval)
    qed
  qed
qed

lemma ret_checked_uint:
  "r < node_total nd \<Longrightarrow> node_total nd < 2 ^ 32 \<Longrightarrow> ret_checked nd (uint r) = Inr r"
  by (simp add: ret_checked_def uint_id)

lemma own2_bound:
  assumes "ok2 nd (b, i, j)" and "first2 nd (b, i, j) = None"
  shows "own2 nd (b, i, j) < node_total nd"
proof -
  from assms(1) have ok: "oracle_ok_2d nd" and b: "b < nb_blocks_of nd"
    and i: "i \<le> sgc nd b 0" and j: "j \<le> sgc nd b 1" by (simp_all add: ok2_def)
  have "own2 nd (b, i, j) < block_first_nodes nd ! b + count_2d nd b"
  proof (cases "i \<noteq> sgc nd b 0 \<and> j \<noteq> sgc nd b 1")
    case True
    with i j have "i < sgc nd b 0" "j < sgc nd b 1" by simp_all
    from interior_bound_2d [OF this] True show ?thesis
      by (simp add: own2_def count_2d_def)
  next
    case False
    with assms(2) i j show ?thesis
      by (auto simp: own2_def count_2d_def first2_def split: if_splits)
  qed
  with oracle_2d_total(1) [OF ok b] show ?thesis by simp
qed

lemma E_own_2d:
  assumes "ok2 nd (b, i, j)" and "first2 nd (b, i, j) = None"
  shows "global_idx_2d (Suc f) nd b i j = Some (Inr (own2 nd (b, i, j)))"
proof -
  from assms(1) have ok: "oracle_ok_2d nd" and b: "b < nb_blocks_of nd"
    and i: "i \<le> sgc nd b 0" and j: "j \<le> sgc nd b 1" by (simp_all add: ok2_def)
  from assms(2) have "global_idx_2d (Suc f) nd b i j =
      Some (ret_checked nd (uint (own2 nd (b, i, j))))"
    by (cases "nbr2 nd b 0"; cases "nbr2 nd b 1")
      (auto simp: global_idx_2d_body_eval [OF ok b i j] own2_def first2_def
        add.assoc split: if_splits)
  with own2_bound [OF assms] oracle_2d_total(5) [OF ok b] show ?thesis
    by (simp add: ret_checked_uint)
qed

lemma H_hop_2d:
  assumes "ok2 nd (b, i, j)" and "can_hop2 nd (b, i, j) d"
  shows "ok2 nd (hop2 nd (b, i, j) d) \<and> Suc (on_max2 nd (hop2 nd (b, i, j) d)) = on_max2 nd (b, i, j)"
proof -
  from assms(1) have ok: "oracle_ok_2d nd" and b: "b < nb_blocks_of nd"
    and i: "i \<le> sgc nd b 0" and j: "j \<le> sgc nd b 1" by (simp_all add: ok2_def)
  from assms(2) obtain c where c: "nbr2 nd b d = Some c" and d: "d < 2"
    and mx: "[i, j] ! d = sgc nd b d" by (auto simp: can_hop2_def)
  note N = regular_2d_nbr [OF ok b c d]
  note P = regular_2d_block(2,3) [OF ok N(1)]
  from d consider "d = 0" | "d = 1" by linarith
  then show ?thesis
  proof cases
    case 1
    with N(2) [of 1] have "sgc nd c 1 = sgc nd b 1" by simp
    with 1 ok N(1) P c mx j show ?thesis by (simp add: ok2_def hop2_def on_max2_def)
  next
    case 2
    with N(2) [of 0] have "sgc nd c 0 = sgc nd b 0" by simp
    with 2 ok N(1) P c mx i show ?thesis by (simp add: ok2_def hop2_def on_max2_def)
  qed
qed

lemma E_dir_2d:
  assumes "ok2 nd (b, i, j)" and "first2 nd (b, i, j) = Some e" and "on_max2 nd (b, i, j) = 1"
  shows "global_idx_2d (Suc f) nd b i j = Some (Inr (own2 nd (hop2 nd (b, i, j) e)))"
proof -
  from assms(1) have ok: "oracle_ok_2d nd" and b: "b < nb_blocks_of nd"
    and i: "i \<le> sgc nd b 0" and j: "j \<le> sgc nd b 1" by (simp_all add: ok2_def)
  from assms(2) have ch: "can_hop2 nd (b, i, j) e"
    by (auto simp: first2_def can_hop2_def split: if_splits)
  from H_hop_2d [OF assms(1) ch] assms(3) have okh: "ok2 nd (hop2 nd (b, i, j) e)"
    and mh: "on_max2 nd (hop2 nd (b, i, j) e) = 0" by simp_all
  from mh have "first2 nd (hop2 nd (b, i, j) e) = None"
    by (auto simp: on_max2_def first2_def hop2_def split: if_splits)
  from own2_bound [OF okh [unfolded hop2_def prod.case] this [unfolded hop2_def prod.case]]
  have bnd: "own2 nd (hop2 nd (b, i, j) e) < node_total nd"
    by (simp add: hop2_def)
  from ch obtain c where c: "nbr2 nd b e = Some c" and e: "e < 2" by (auto simp: can_hop2_def)
  note P = regular_2d_block(2,3) [OF ok regular_2d_nbr(1) [OF ok b c e]]
  note N = regular_2d_nbr(2) [OF ok b c e]
  from e consider "e = 0" | "e = 1" by linarith
  then have "global_idx_2d (Suc f) nd b i j =
      Some (ret_checked nd (uint (own2 nd (hop2 nd (b, i, j) e))))"
  proof cases
    case 1
    with N [of 1] have "sgc nd c 1 = sgc nd b 1" by simp
    with 1 assms(2,3) c P show ?thesis
      by (auto simp: global_idx_2d_body_eval [OF ok b i j] own2_def first2_def hop2_def
          on_max2_def add.assoc split: if_splits)
  next
    case 2
    with N [of 0] have "sgc nd c 0 = sgc nd b 0" by simp
    with 2 assms(2,3) c P show ?thesis
      by (auto simp: global_idx_2d_body_eval [OF ok b i j] own2_def first2_def hop2_def
          on_max2_def add.assoc split: if_splits)
  qed
  with bnd oracle_2d_total(5) [OF ok b] show ?thesis by (simp add: ret_checked_uint)
qed

lemma E_rec_2d:
  assumes "ok2 nd (b, i, j)" and "first2 nd (b, i, j) = Some e" and "2 \<le> on_max2 nd (b, i, j)"
  shows "global_idx_2d (Suc f) nd b i j =
    bindR (run2 nd f (hop2 nd (b, i, j) e))
      (\<lambda>r. Some (if r < node_total nd then Inr r else Inl FailedAssertion))"
proof -
  from assms(1) have ok: "oracle_ok_2d nd" and b: "b < nb_blocks_of nd"
    and i: "i \<le> sgc nd b 0" and j: "j \<le> sgc nd b 1" by (simp_all add: ok2_def)
  from assms(3) have "i = sgc nd b 0" "j = sgc nd b 1"
    by (cases "i = sgc nd b 0"; cases "j = sgc nd b 1"; simp add: on_max2_def)+
  note ij = this
  note ev = global_idx_2d_body_eval [OF ok b i j, of "global_idx_2d f nd"]
  from assms(2) ij show ?thesis
    unfolding global_idx_2d.simps ev
    by (auto simp: first2_def hop2_def run2_def ret_checked_def split: if_splits)
qed

lemma H_close_2d:
  assumes "ok2 nd (b, i, j)" and "can_hop2 nd (b, i, j) d" and "can_hop2 nd (b, i, j) e" and "d \<noteq> e"
  shows "can_hop2 nd (hop2 nd (b, i, j) d) e \<and> can_hop2 nd (hop2 nd (b, i, j) e) d \<and>
     hop2 nd (hop2 nd (b, i, j) d) e = hop2 nd (hop2 nd (b, i, j) e) d"
proof -
  from assms(1) have ok: "oracle_ok_2d nd" and b: "b < nb_blocks_of nd" by (simp_all add: ok2_def)
  from assms(2) obtain c where c: "nbr2 nd b d = Some c" and d: "d < 2"
    and md: "[i, j] ! d = sgc nd b d" by (auto simp: can_hop2_def)
  from assms(3) obtain c' where c': "nbr2 nd b e = Some c'" and e: "e < 2"
    and me: "[i, j] ! e = sgc nd b e" by (auto simp: can_hop2_def)
  from regular_2d_nbr(2) [OF ok b c d e] assms(4) have s1: "sgc nd c e = sgc nd b e" by simp
  from regular_2d_nbr(2) [OF ok b c' e d] assms(4) have s2: "sgc nd c' d = sgc nd b d" by simp
  note cl = regular_2d_nbr(3) [OF ok b c d e assms(4) [symmetric] c']
  from cl have n1: "nbr2 nd c e \<noteq> None" by (rule conjunct1)
  from cl have q: "nbr2 nd c e = nbr2 nd c' d" by (rule conjunct2)
  from n1 have n2: "nbr2 nd c' d \<noteq> None" unfolding q .
  from d e assms(4) consider "d = 0 \<and> e = 1" | "d = 1 \<and> e = 0" by linarith
  then show ?thesis
  proof cases
    case 1
    with c c' md me s1 s2 n1 n2 q show ?thesis by (simp add: can_hop2_def hop2_def)
  next
    case 2
    with c c' md me s1 s2 n1 n2 q show ?thesis by (simp add: can_hop2_def hop2_def)
  qed
qed

lemma on_max2_le: "on_max2 nd s \<le> 2"
  by (cases s) (simp add: on_max2_def)

lemma hops_2d:
  shows "\<forall>f s. ok2 nd s \<longrightarrow> first2 nd s = None \<longrightarrow>
           run2 nd (Suc f) s = Some (Inr (own2 nd s)) \<and> own2 nd s < node_total nd"
    and "\<forall>f s e. ok2 nd s \<longrightarrow> first2 nd s = Some e \<longrightarrow> on_max2 nd s = 1 \<longrightarrow>
           run2 nd (Suc f) s = Some (Inr (own2 nd (hop2 nd s e)))"
    and "\<forall>f s e. ok2 nd s \<longrightarrow> first2 nd s = Some e \<longrightarrow> 2 \<le> on_max2 nd s \<longrightarrow>
           run2 nd (Suc f) s = bindR (run2 nd f (hop2 nd s e))
             (\<lambda>r. Some (if r < node_total nd then Inr r else Inl FailedAssertion))"
    and "\<forall>s e. ok2 nd s \<longrightarrow> first2 nd s = Some e \<longrightarrow> can_hop2 nd s e"
    and "\<forall>s d. ok2 nd s \<longrightarrow> can_hop2 nd s d \<longrightarrow>
           ok2 nd (hop2 nd s d) \<and> Suc (on_max2 nd (hop2 nd s d)) = on_max2 nd s"
    and "\<forall>s. ok2 nd s \<longrightarrow> on_max2 nd s = 0 \<longrightarrow> first2 nd s = None"
    and "\<forall>s d. ok2 nd s \<longrightarrow> can_hop2 nd s d \<longrightarrow> first2 nd s \<noteq> None"
    and "\<forall>s d e. ok2 nd s \<longrightarrow> can_hop2 nd s d \<longrightarrow> can_hop2 nd s e \<longrightarrow> d \<noteq> e \<longrightarrow>
           can_hop2 nd (hop2 nd s d) e \<and> can_hop2 nd (hop2 nd s e) d \<and>
           hop2 nd (hop2 nd s d) e = hop2 nd (hop2 nd s e) d"
proof -
  show "\<forall>f s. ok2 nd s \<longrightarrow> first2 nd s = None \<longrightarrow>
           run2 nd (Suc f) s = Some (Inr (own2 nd s)) \<and> own2 nd s < node_total nd"
    using E_own_2d [of nd] own2_bound [of nd] by (simp add: run2_def del: global_idx_2d.simps)
  show "\<forall>f s e. ok2 nd s \<longrightarrow> first2 nd s = Some e \<longrightarrow> on_max2 nd s = 1 \<longrightarrow>
           run2 nd (Suc f) s = Some (Inr (own2 nd (hop2 nd s e)))"
    using E_dir_2d [of nd] by (simp add: run2_def del: global_idx_2d.simps)
  show "\<forall>f s e. ok2 nd s \<longrightarrow> first2 nd s = Some e \<longrightarrow> 2 \<le> on_max2 nd s \<longrightarrow>
           run2 nd (Suc f) s = bindR (run2 nd f (hop2 nd s e))
             (\<lambda>r. Some (if r < node_total nd then Inr r else Inl FailedAssertion))"
    using E_rec_2d [of nd] by (simp add: run2_def del: global_idx_2d.simps)
  show "\<forall>s e. ok2 nd s \<longrightarrow> first2 nd s = Some e \<longrightarrow> can_hop2 nd s e"
    by (auto simp: first2_def can_hop2_def split: if_splits)
  show "\<forall>s d. ok2 nd s \<longrightarrow> can_hop2 nd s d \<longrightarrow>
           ok2 nd (hop2 nd s d) \<and> Suc (on_max2 nd (hop2 nd s d)) = on_max2 nd s"
    using H_hop_2d [of nd] by simp
  show "\<forall>s. ok2 nd s \<longrightarrow> on_max2 nd s = 0 \<longrightarrow> first2 nd s = None"
    by (auto simp: first2_def on_max2_def split: if_splits)
  show "\<forall>s d. ok2 nd s \<longrightarrow> can_hop2 nd s d \<longrightarrow> first2 nd s \<noteq> None"
    by (auto simp: first2_def can_hop2_def nth_Cons split: nat.splits)
  show "\<forall>s d e. ok2 nd s \<longrightarrow> can_hop2 nd s d \<longrightarrow> can_hop2 nd s e \<longrightarrow> d \<noteq> e \<longrightarrow>
           can_hop2 nd (hop2 nd s d) e \<and> can_hop2 nd (hop2 nd s e) d \<and>
           hop2 nd (hop2 nd s d) e = hop2 nd (hop2 nd s e) d"
    using H_close_2d [of nd] by simp
qed


lemma resolved_2d:
  assumes "ok2 nd s" and "2 < f" and "2 < f'"
  shows "\<exists>g<node_total nd. run2 nd f s = Some (Inr g) \<and> run2 nd f' s = Some (Inr g)"
proof -
  from on_max2_le [of nd s] assms(2,3) have "on_max2 nd s < f" "on_max2 nd s < f'" by simp_all
  from hop_total [where G = "run2 nd" and ok = "ok2 nd" and first = "first2 nd"
      and own = "own2 nd" and m = "on_max2 nd" and hop = "hop2 nd" and can_hop = "can_hop2 nd",
      OF hops_2d(1-6) assms(1) this] show ?thesis .
qed

























end
